theory Spec2Isabelle
  imports Complex_Main "HOL-Library.AList"
begin

section \<open>Values\<close>

text \<open>
  The data carried by an event is an Immutable.js tree; the functions of event.js and
  filler.js convert between that tree and plain JavaScript objects (\<open>fromJS\<close>,
  \<open>toJS\<close>, \<open>toJSON\<close>). Both sides are the same tree here, so these conversions
  are the identity on \<open>jsval\<close>. A mapping is an association list in insertion order;
  a well-formed mapping has distinct keys. Numbers are exact rationals, with
  not-a-number as a value of its own.
\<close>

datatype jsval =
    JUndefined
  | JNull
  | JNaN
  | JBool bool
  | JNum rat
  | JStr string
  | JList "jsval list"
  | JMap "(string \<times> jsval) list"

datatype error =
    BadTimestamp            \<comment> \<open>"Unable to get timestamp from ..."\<close>
  | BadEventData            \<comment> \<open>"Unable to interpret event data from ..."\<close>
  | NotHomogeneous string   \<comment> \<open>"Events for time <key> are not homogeneous"\<close>
  | UnknownEventList        \<comment> \<open>"Unknown event list type. ..."\<close>
  | UnknownFillerArg        \<comment> \<open>"Unknown arg to Filler constructor"\<close>
  | UnknownMethod string    \<comment> \<open>"Unknown method <method> passed to Filler"\<close>
  | LinearSingleColumn      \<comment> \<open>"Linear fill takes a path to a single column"\<close>
  | TypeError               \<comment> \<open>raised by the runtime: a property read on undefined, a call of what is no function\<close>
  | RangeError              \<comment> \<open>raised by the runtime: "Invalid array length"\<close>

text \<open>The entries of a mapping; any other value has none.\<close>

fun entries :: "jsval \<Rightarrow> (string \<times> jsval) list" where
  "entries (JMap kvs) = kvs"
| "entries _ = []"

fun is_map :: "jsval \<Rightarrow> bool" where
  "is_map (JMap kvs) = True"
| "is_map _ = False"

text \<open>\<open>Map.get(key)\<close>: the value under the key, undefined when there is none.\<close>

definition imm_get :: "jsval \<Rightarrow> string \<Rightarrow> jsval" where
  "imm_get d k = (case map_of (entries d) k of None \<Rightarrow> JUndefined | Some v \<Rightarrow> v)"

text \<open>
  \<open>getIn\<close>, \<open>hasIn\<close> and \<open>setIn\<close> follow a path of keys through nested mappings.
  Paths through a List are not followed. Immutable's \<open>setIn\<close> raises when the path
  runs into a value that is neither a mapping nor undefined; \<open>setIn\<close> below returns the
  tree unchanged there. The filler calls it only on a path for which \<open>hasIn\<close> holds,
  where that case cannot arise.
\<close>

fun getIn :: "jsval \<Rightarrow> string list \<Rightarrow> jsval" where
  "getIn v [] = v"
| "getIn (JMap kvs) (k # ks) =
     (case map_of kvs k of None \<Rightarrow> JUndefined | Some v \<Rightarrow> getIn v ks)"
| "getIn _ (k # ks) = JUndefined"

fun hasIn :: "jsval \<Rightarrow> string list \<Rightarrow> bool" where
  "hasIn v [] = True"
| "hasIn (JMap kvs) (k # ks) =
     (case map_of kvs k of None \<Rightarrow> False | Some v \<Rightarrow> hasIn v ks)"
| "hasIn _ (k # ks) = False"

fun setIn :: "jsval \<Rightarrow> string list \<Rightarrow> jsval \<Rightarrow> jsval" where
  "setIn v [] x = x"
| "setIn (JMap kvs) (k # ks) x =
     JMap (AList.update k
       (setIn (case map_of kvs k of None \<Rightarrow> JUndefined | Some v \<Rightarrow> v) ks x) kvs)"
| "setIn JUndefined (k # ks) x = JMap [(k, setIn JUndefined ks x)]"
| "setIn v (k # ks) x = v"

text \<open>
  \<open>String.split(sep)\<close> for a one-character separator.
\<close>

fun split_on :: "char \<Rightarrow> string \<Rightarrow> string list" where
  "split_on c [] = [[]]"
| "split_on c (x # xs) =
     (if x = c then [] # split_on c xs
      else (case split_on c xs of [] \<Rightarrow> [[x]] | w # ws \<Rightarrow> (x # w) # ws))"

text \<open>\<open>Array.join(sep)\<close> on strings.\<close>

fun join :: "string \<Rightarrow> string list \<Rightarrow> string" where
  "join sep [] = []"
| "join sep [w] = w"
| "join sep (w # ws) = w @ sep @ join sep ws"

datatype fieldpath = PathString string | PathArray "string list" | PathOmitted

text \<open>
  Modelled from the spec: \<open>util.fieldPathToArray\<close> is imported from a module that is
  not among the sources. The spec gives a field path as a dot-separated string, an
  array of segments, or omitted (then \<open>["value"]\<close>).
\<close>

fun fieldPathToArray :: "fieldpath \<Rightarrow> string list" where
  "fieldPathToArray (PathString s) = split_on CHR ''.'' s"
| "fieldPathToArray (PathArray segs) = segs"
| "fieldPathToArray PathOmitted = [''value'']"

text \<open>
  Modelled from the spec: \<open>util.isMissing\<close>, of the same module. A value is missing
  when it is absent, null or not-a-number; 0 and the empty string are not missing.
\<close>

fun isMissing :: "jsval \<Rightarrow> bool" where
  "isMissing JUndefined = True"
| "isMissing JNull = True"
| "isMissing JNaN = True"
| "isMissing _ = False"

text \<open>
  Modelled from the spec: \<open>util.generatePaths\<close>, of the same module, produces every
  leaf path present; a leaf is a value that is not a mapping.
\<close>

fun generatePaths :: "jsval \<Rightarrow> string list list" where
  "generatePaths (JMap kvs) =
     concat (map (\<lambda>(k, v). map (\<lambda>p. k # p) (generatePaths v)) kvs)"
| "generatePaths _ = [[]]"

section \<open>Events\<close>

text \<open>
  The three kinds of event. \<open>Event\<close> is the class of event.js: its state \<open>_d\<close> is the
  pair of a time (a Date, here its epoch milliseconds) and the data. The classes
  IndexedEvent and TimeRangeEvent are imported by event.js and are not among the
  sources; an indexed event is held as its index string and its data, an interval event
  as its begin and end milliseconds and its data. The UTC flag of an indexed event,
  which no function below reads or passes on, is left out.
\<close>

datatype event =
    Event int jsval
  | IndexedEvent string jsval
  | TimeRangeEvent int int jsval

datatype temporal = AtTime int | AtIndex string | AtRange int int

fun identity :: "event \<Rightarrow> temporal" where
  "identity (Event t d) = AtTime t"
| "identity (IndexedEvent i d) = AtIndex i"
| "identity (TimeRangeEvent b e d) = AtRange b e"

text \<open>\<open>data()\<close>\<close>

fun Event_data :: "event \<Rightarrow> jsval" where
  "Event_data (Event t d) = d"
| "Event_data (IndexedEvent i d) = d"
| "Event_data (TimeRangeEvent b e d) = d"

datatype time_arg = TimeNumber int | TimeDate int | TimeMoment int | TimeOther

fun timestampFromArg :: "time_arg \<Rightarrow> error + int" where
  "timestampFromArg (TimeNumber ms) = Inr ms"
| "timestampFromArg (TimeDate ms) = Inr ms"
| "timestampFromArg (TimeMoment ms) = Inr ms"
| "timestampFromArg TimeOther = Inl BadTimestamp"

text \<open>
  \<open>dataFromArg\<close>: \<open>_.isObject\<close> holds of objects, arrays and Immutable collections
  (the second test of the source, on the still unassigned \<open>data\<close>, never holds);
  \<open>_.isNumber\<close> holds of numbers including NaN. Null, undefined and booleans reach
  the final \<open>throw\<close>.
\<close>

fun dataFromArg :: "jsval \<Rightarrow> error + jsval" where
  "dataFromArg (JMap kvs) = Inr (JMap kvs)"
| "dataFromArg (JList vs) = Inr (JList vs)"
| "dataFromArg (JNum x) = Inr (JMap [(''value'', JNum x)])"
| "dataFromArg JNaN = Inr (JMap [(''value'', JNaN)])"
| "dataFromArg (JStr s) = Inr (JMap [(''value'', JStr s)])"
| "dataFromArg _ = Inl BadEventData"

text \<open>\<open>new Event(time, data)\<close>: the timestamp is taken first, then the data.\<close>

definition Event_new :: "time_arg \<Rightarrow> jsval \<Rightarrow> error + event" where
  "Event_new arg1 arg2 =
     (case timestampFromArg arg1 of
        Inl err \<Rightarrow> Inl err
      | Inr time \<Rightarrow>
          (case dataFromArg arg2 of
             Inl err \<Rightarrow> Inl err
           | Inr data \<Rightarrow> Inr (Event time data)))"

text \<open>
  Modelled from the spec: the constructor of IndexedEvent is not among the sources. The
  spec gives all three kinds the same treatment of the data source; the temporal
  identity is the index.
\<close>

definition IndexedEvent_new :: "string \<Rightarrow> jsval \<Rightarrow> error + event" where
  "IndexedEvent_new index arg2 =
     (case dataFromArg arg2 of Inl err \<Rightarrow> Inl err | Inr data \<Rightarrow> Inr (IndexedEvent index data))"

text \<open>
  Modelled from the spec: the constructor of TimeRangeEvent is not among the sources
  either; the temporal identity is the begin and the end of the range.
\<close>

definition TimeRangeEvent_new :: "int \<Rightarrow> int \<Rightarrow> jsval \<Rightarrow> error + event" where
  "TimeRangeEvent_new b e arg2 =
     (case dataFromArg arg2 of Inl err \<Rightarrow> Inl err | Inr data \<Rightarrow> Inr (TimeRangeEvent b e data))"

text \<open>
  \<open>setData(data)\<close>: \<open>this._d.set("data", dataFromArg(data))\<close> is a new map with the old
  time, and \<open>new Event(d)\<close> on a map that has a time and a data takes it as its state.

  Modelled from the spec: \<open>setData\<close> of IndexedEvent and of TimeRangeEvent, whose
  classes are not among the sources ("returns a new event with identity unchanged and
  data replaced").
\<close>

fun Event_setData :: "event \<Rightarrow> jsval \<Rightarrow> error + event" where
  "Event_setData (Event t d0) d =
     (case dataFromArg d of Inl err \<Rightarrow> Inl err | Inr d' \<Rightarrow> Inr (Event t d'))"
| "Event_setData (IndexedEvent i d0) d =
     (case dataFromArg d of Inl err \<Rightarrow> Inl err | Inr d' \<Rightarrow> Inr (IndexedEvent i d'))"
| "Event_setData (TimeRangeEvent b e d0) d =
     (case dataFromArg d of Inl err \<Rightarrow> Inl err | Inr d' \<Rightarrow> Inr (TimeRangeEvent b e d'))"

text \<open>
  Events are objects. With the allocated events in a list and a reference an index into
  it, \<open>setData\<close> on the object at \<open>this\<close> allocates its result behind all existing
  objects and returns the new reference.
\<close>

definition setData_at :: "event list \<Rightarrow> nat \<Rightarrow> jsval \<Rightarrow> error + (nat \<times> event list)" where
  "setData_at heap this d =
     (case Event_setData (heap ! this) d of
        Inl err \<Rightarrow> Inl err
      | Inr e' \<Rightarrow> Inr (length heap, heap @ [e']))"

text \<open>\<open>get(fieldPath)\<close>\<close>

definition Event_get :: "event \<Rightarrow> fieldpath \<Rightarrow> jsval" where
  "Event_get e fieldPath = getIn (Event_data e) (fieldPathToArray fieldPath)"

section \<open>Grouping and reduction\<close>

text \<open>
  A plain JavaScript object used as a dictionary is an association list: \<open>_.has\<close> is
  \<open>map_of obj key \<noteq> None\<close>, assigning to a new key appends it, assigning to an
  existing key replaces its value in place. The entries are visited in insertion order
  (JavaScript visits keys that are array indices first; none of the results below
  depends on the order of the groups). Where the source reads a property without
  \<open>_.has\<close>, the properties that every object inherits count as well; they are listed
  in \<open>inherited_names\<close> below. Underscore walks an object with a numeric
  \<open>length\<close> as an array; \<open>json_fields\<close> and \<open>each_pairs\<close> below have that. One
  thing is not modelled: the key \<open>__proto__\<close> of a dictionary or of event data taken
  as the prototype that JavaScript makes of it.
\<close>

text \<open>\<open>if (!_.has(obj, key)) obj[key] = []; obj[key].push(x)\<close>\<close>

definition push_at :: "string \<Rightarrow> 'a \<Rightarrow> (string \<times> 'a list) list \<Rightarrow> (string \<times> 'a list) list" where
  "push_at key x obj =
     AList.map_entry key (\<lambda>xs. xs @ [x])
       (if map_of obj key = None then AList.update key [] obj else obj)"

text \<open>
  The property name that a time in milliseconds becomes when it is used as a key, and
  unary plus on such a key. Unary plus on any other string is NaN in JavaScript, which
  instants as integers do not have; \<open>to_number\<close> is applied only to the key of a
  group recorded with the type \<open>Event\<close>, which is such a rendering.
\<close>

definition digit :: "nat \<Rightarrow> char" where
  "digit d = ''0123456789'' ! (d mod 10)"

definition digit_val :: "char \<Rightarrow> nat" where
  "digit_val c = of_char c - 48"

fun dec_of_nat :: "nat \<Rightarrow> string" where
  "dec_of_nat n = (if n < 10 then [digit n] else dec_of_nat (n div 10) @ [digit (n mod 10)])"

declare dec_of_nat.simps [simp del]

definition string_of_int :: "int \<Rightarrow> string" where
  "string_of_int i = (if i < 0 then CHR ''-'' # dec_of_nat (nat (- i)) else dec_of_nat (nat i))"

definition nat_of_dec :: "string \<Rightarrow> nat" where
  "nat_of_dec s = foldl (\<lambda>a c. 10 * a + digit_val c) 0 s"

fun to_number :: "string \<Rightarrow> int" where
  "to_number [] = 0"
| "to_number (c # s) =
     (if c = CHR ''-'' then - int (nat_of_dec s) else int (nat_of_dec (c # s)))"

datatype etype = TEvent | TIndexedEvent | TTimeRangeEvent

text \<open>The type and the key that the \<open>instanceof\<close> chain of the grouping loop assigns.\<close>

fun event_type :: "event \<Rightarrow> etype" where
  "event_type (Event t d) = TEvent"
| "event_type (IndexedEvent i d) = TIndexedEvent"
| "event_type (TimeRangeEvent b e d) = TTimeRangeEvent"

text \<open>
  Modelled from the spec: \<open>index()\<close> and \<open>timerange()\<close> belong to the classes that
  are not among the sources; the spec gives the group key of an indexed event as its
  index string and of an interval event as \<open>"<begin>,<end>"\<close> in integer milliseconds.
  The key of an \<open>Event\<close> is \<open>timestamp().getTime()\<close>, as the source has it.
\<close>

fun event_key :: "event \<Rightarrow> string" where
  "event_key (Event t d) = string_of_int t"
| "event_key (IndexedEvent i d) = i"
| "event_key (TimeRangeEvent b e d) = string_of_int b @ '','' @ string_of_int e"

type_synonym eventMap = "(string \<times> event list) list"
type_synonym typeMap = "(string \<times> etype) list"

text \<open>
  One round of the first \<open>events.forEach\<close>, which \<open>merge\<close> and \<open>combine\<close> have
  word for word in common.
\<close>

definition group_event :: "event \<Rightarrow> eventMap \<times> typeMap \<Rightarrow> error + eventMap \<times> typeMap" where
  "group_event e maps =
     (case maps of (eventMap, typeMap) \<Rightarrow>
        let type = event_type e;
            key = event_key e;
            eventMap' = push_at key e eventMap
        in (case map_of typeMap key of
              None \<Rightarrow> Inr (eventMap', AList.update key type typeMap)
            | Some t \<Rightarrow>
                if t \<noteq> type then Inl (NotHomogeneous key) else Inr (eventMap', typeMap)))"

fun group_events :: "event list \<Rightarrow> eventMap \<times> typeMap \<Rightarrow> error + eventMap \<times> typeMap" where
  "group_events [] maps = Inr maps"
| "group_events (e # es) maps =
     (case group_event e maps of Inl err \<Rightarrow> Inl err | Inr maps' \<Rightarrow> group_events es maps')"

text \<open>
  The output event of one group, built from the type recorded for the key. No event is
  pushed when none of the three tests holds.
\<close>

definition out_event :: "etype option \<Rightarrow> string \<Rightarrow> jsval \<Rightarrow> error + event list" where
  "out_event type key d =
     (case type of
        Some TEvent \<Rightarrow>
          (case Event_new (TimeNumber (to_number key)) d of
             Inl err \<Rightarrow> Inl err | Inr ev \<Rightarrow> Inr [ev])
      | Some TIndexedEvent \<Rightarrow>
          (case IndexedEvent_new key d of Inl err \<Rightarrow> Inl err | Inr ev \<Rightarrow> Inr [ev])
      | Some TTimeRangeEvent \<Rightarrow>
          (let parts = split_on CHR '','' key;
               b = (case parts of x # _ \<Rightarrow> x | [] \<Rightarrow> []);
               e = (case parts of _ # y # _ \<Rightarrow> y | _ \<Rightarrow> [])
           in case TimeRangeEvent_new (to_number b) (to_number e) d of
                Inl err \<Rightarrow> Inl err | Inr ev \<Rightarrow> Inr [ev])
      | None \<Rightarrow> Inr [])"

fun collect :: "(error + 'a list) list \<Rightarrow> error + 'a list" where
  "collect [] = Inr []"
| "collect (r # rs) =
     (case r of
        Inl err \<Rightarrow> Inl err
      | Inr xs \<Rightarrow> (case collect rs of Inl err \<Rightarrow> Inl err | Inr ys \<Rightarrow> Inr (xs @ ys)))"

text \<open>
  \<open>Map.merge\<close> of Immutable: every entry of the argument is set on the receiver, so a
  key of the argument replaces the whole value the receiver had under it.
\<close>

definition imm_merge :: "jsval \<Rightarrow> jsval \<Rightarrow> jsval" where
  "imm_merge a b = JMap (foldl (\<lambda>m (k, v). AList.update k v m) (entries a) (entries b))"

definition merge_data :: "event list \<Rightarrow> jsval" where
  "merge_data events = foldl (\<lambda>data event. imm_merge data (Event_data event)) (JMap []) events"

definition Event_merge :: "event list \<Rightarrow> error + event list" where
  "Event_merge events =
     (if length events = 0 then Inr []
      else (case group_events events ([], []) of
              Inl err \<Rightarrow> Inl err
            | Inr (eventMap, typeMap) \<Rightarrow>
                collect (map (\<lambda>(key, events). out_event (map_of typeMap key) key (merge_data events))
                           eventMap)))"

text \<open>
  The field specification handed to \<open>combine\<close> and \<open>map\<close>: a string, an array of
  strings, a function from an event to an object, undefined (the argument left out), or
  null, which stands for every other value.
\<close>

datatype fieldSpec =
    SpecUndefined
  | SpecNull
  | SpecString string
  | SpecArray "string list"
  | SpecFunction "event \<Rightarrow> (string \<times> jsval) list"

fun fieldNames_of :: "fieldSpec \<Rightarrow> string list option" where
  "fieldNames_of (SpecString s) = Some [s]"
| "fieldNames_of (SpecArray names) = Some names"
| "fieldNames_of _ = None"

type_synonym mapEvent = "(string \<times> jsval list) list"

text \<open>
  The names that a plain object inherits from \<open>Object.prototype\<close>. Under each of them
  an object that has no such key of its own still holds a value that is truthy and is no
  array.
\<close>

definition inherited_names :: "string list" where
  "inherited_names =
     [''constructor'', ''__defineGetter__'', ''__defineSetter__'', ''hasOwnProperty'',
      ''__lookupGetter__'', ''__lookupSetter__'', ''isPrototypeOf'', ''propertyIsEnumerable'',
      ''toString'', ''valueOf'', ''__proto__'', ''toLocaleString'']"

text \<open>
  A field name as the inner loop of \<open>combine\<close> meets it: a string, or a number when
  Underscore has walked the data as an array. \<open>name_key\<close> is the property name it
  becomes in \<open>mapEvent\<close>; \<open>data_get\<close> is \<open>event.data().get(fieldName)\<close>, where a
  number is never a key of a mapping and is a position of a List.
\<close>

datatype fieldName = Name string | Index nat

fun name_key :: "fieldName \<Rightarrow> string" where
  "name_key (Name s) = s"
| "name_key (Index i) = dec_of_nat i"

fun data_get :: "jsval \<Rightarrow> fieldName \<Rightarrow> jsval" where
  "data_get d (Name s) = imm_get d s"
| "data_get (JList vs) (Index i) = (if i < length vs then vs ! i else JUndefined)"
| "data_get d (Index i) = JUndefined"

text \<open>
  \<open>_.map(event.data().toJSON(), (value, fieldName) => fieldName)\<close>. Underscore takes
  an object for an array when its \<open>length\<close> is a number from 0 to \<open>2^53 - 1\<close>; it
  then allocates \<open>Array(length)\<close>, which raises a RangeError unless the length is a
  whole number below \<open>2^32\<close>, and hands the positions \<open>0, ..., length - 1\<close> to the
  function. Otherwise it hands over the object's own keys. Data that is a List becomes
  an array; data that is neither a mapping nor a List has no \<open>toJSON\<close>.
\<close>

definition json_fields :: "jsval \<Rightarrow> error + fieldName list" where
  "json_fields d =
     (case d of
        JMap kvs \<Rightarrow>
          (case imm_get d ''length'' of
             JNum x \<Rightarrow>
               if 0 \<le> x \<and> x \<le> 2 ^ 53 - 1 then
                 (if of_int \<lfloor>x\<rfloor> = x \<and> x \<le> 2 ^ 32 - 1
                  then Inr (map Index [0 ..< nat \<lfloor>x\<rfloor>])
                  else Inl RangeError)
               else Inr (map (\<lambda>(k, v). Name k) kvs)
           | _ \<Rightarrow> Inr (map (\<lambda>(k, v). Name k) kvs))
      | JList vs \<Rightarrow> Inr (map Index [0 ..< length vs])
      | _ \<Rightarrow> Inl TypeError)"

text \<open>
  The inner loop, \<open>fields.forEach\<close>. The test \<open>!mapEvent[fieldName]\<close> reads the
  property: a key of \<open>mapEvent\<close>'s own holds an array; an inherited name holds
  something truthy that has no \<open>push\<close>, and the call raises a TypeError; under any
  other name there is nothing, and the list is started.
\<close>

fun push_fields :: "event \<Rightarrow> fieldName list \<Rightarrow> mapEvent \<Rightarrow> error + mapEvent" where
  "push_fields event [] mapEvent = Inr mapEvent"
| "push_fields event (fieldName # fields) mapEvent =
     (if map_of mapEvent (name_key fieldName) = None \<and> name_key fieldName \<in> set inherited_names
      then Inl TypeError
      else push_fields event fields
             (push_at (name_key fieldName) (data_get (Event_data event) fieldName) mapEvent))"

text \<open>The loop over the events of one group, \<open>events.forEach\<close>.\<close>

fun collect_fields :: "string list option \<Rightarrow> event list \<Rightarrow> mapEvent \<Rightarrow> error + mapEvent" where
  "collect_fields fieldNames [] mapEvent = Inr mapEvent"
| "collect_fields fieldNames (event # events) mapEvent =
     (case (case fieldNames of
              None \<Rightarrow> json_fields (Event_data event)
            | Some names \<Rightarrow> Inr (map Name names)) of
        Inl err \<Rightarrow> Inl err
      | Inr fields \<Rightarrow>
          (case push_fields event fields mapEvent of
             Inl err \<Rightarrow> Inl err
           | Inr mapEvent' \<Rightarrow> collect_fields fieldNames events mapEvent'))"

text \<open>The object \<open>d\<close> of one group: every list of \<open>mapEvent\<close> reduced.\<close>

definition combine_data ::
    "string list option \<Rightarrow> (jsval list \<Rightarrow> jsval) \<Rightarrow> event list \<Rightarrow> error + jsval" where
  "combine_data fieldNames reducer events =
     (case collect_fields fieldNames events [] of
        Inl err \<Rightarrow> Inl err
      | Inr mapEvent \<Rightarrow>
          Inr (JMap (map (\<lambda>(fieldName, values). (fieldName, reducer values)) mapEvent)))"

definition Event_combine :: "event list \<Rightarrow> fieldSpec \<Rightarrow> (jsval list \<Rightarrow> jsval) \<Rightarrow> error + event list" where
  "Event_combine events fieldSpec reducer =
     (if length events = 0 then Inr []
      else (let fieldNames = fieldNames_of fieldSpec
            in case group_events events ([], []) of
                 Inl err \<Rightarrow> Inl err
               | Inr (eventMap, typeMap) \<Rightarrow>
                   collect (map (\<lambda>(key, events).
                                   case combine_data fieldNames reducer events of
                                     Inl err \<Rightarrow> Inl err
                                   | Inr d \<Rightarrow> out_event (map_of typeMap key) key d)
                              eventMap)))"

datatype evts = ImmutableList "event list" | Array "event list" | NotAList

type_synonym mapped = "(string \<times> jsval list) list"

fun push_pairs :: "(string \<times> jsval) list \<Rightarrow> mapped \<Rightarrow> mapped" where
  "push_pairs [] result = result"
| "push_pairs ((key, v) # pairs) result = push_pairs pairs (push_at key v result)"

text \<open>
  What \<open>_.each(obj, (value, key) => ...)\<close> visits on a plain object: its own entries,
  or, when its \<open>length\<close> is a number from 0 to \<open>2^53 - 1\<close>, the positions below
  the length, each with what the object holds under it.
\<close>

definition each_pairs :: "(string \<times> jsval) list \<Rightarrow> (string \<times> jsval) list" where
  "each_pairs kvs =
     (case map_of kvs ''length'' of
        Some (JNum x) \<Rightarrow>
          if 0 \<le> x \<and> x \<le> 2 ^ 53 - 1 then
            map (\<lambda>i. (dec_of_nat i,
                       case map_of kvs (dec_of_nat i) of None \<Rightarrow> JUndefined | Some v \<Rightarrow> v))
              [0 ..< nat \<lceil>x\<rceil>]
          else kvs
      | _ \<Rightarrow> kvs)"

text \<open>
  The same for \<open>event.data().toJSON()\<close>: a mapping becomes a plain object, a List an
  array, which is visited position by position.
\<close>

fun json_pairs :: "jsval \<Rightarrow> (string \<times> jsval) list" where
  "json_pairs (JMap kvs) = each_pairs kvs"
| "json_pairs (JList vs) = map (\<lambda>i. (dec_of_nat i, vs ! i)) [0 ..< length vs]"
| "json_pairs _ = []"

text \<open>
  \<open>map(evts, multiFieldSpec = "value")\<close>: the default takes the place of an argument
  that is undefined, before the four branches are tried.
\<close>

definition Event_map :: "evts \<Rightarrow> fieldSpec \<Rightarrow> error + mapped" where
  "Event_map evts arg =
     (let multiFieldSpec = (case arg of SpecUndefined \<Rightarrow> SpecString ''value'' | _ \<Rightarrow> arg)
      in case (case evts of
                 ImmutableList es \<Rightarrow> Inr es
               | Array es \<Rightarrow> Inr es
               | NotAList \<Rightarrow> Inl UnknownEventList) of
           Inl err \<Rightarrow> Inl err
         | Inr events \<Rightarrow>
             Inr (case multiFieldSpec of
                    SpecString fieldSpec \<Rightarrow>
                      foldl (\<lambda>result event.
                               push_at fieldSpec (Event_get event (PathString fieldSpec)) result)
                        [] events
                  | SpecArray names \<Rightarrow>
                      foldl (\<lambda>result fieldSpec.
                               foldl (\<lambda>result event.
                                        push_at fieldSpec (Event_get event (PathString fieldSpec)) result)
                                 result events)
                        [] names
                  | SpecFunction f \<Rightarrow>
                      foldl (\<lambda>result event. push_pairs (each_pairs (f event)) result) [] events
                  | _ \<Rightarrow>
                      foldl (\<lambda>result event. push_pairs (json_pairs (Event_data event)) result)
                        [] events))"

section \<open>The filler\<close>

text \<open>
  The members of a Filler. \<open>u_fieldSpec\<close> stands for \<open>_fieldSpec\<close> and so on for the
  other members; \<open>None\<close> is undefined for \<open>u_fieldSpec\<close>, null for \<open>u_limit\<close> and
  \<open>u_previousEvent\<close>. \<open>u_keyCount\<close> is the object of counters, one per path key.
\<close>

record filler =
  u_fieldSpec :: "fieldpath list option"
  u_method :: string
  u_limit :: "int option"
  u_previousEvent :: "event option"
  u_keyCount :: "(string \<times> int) list"
  u_lastGoodLinear :: jsval
  u_linearFillCache :: "event list"

datatype fillSpec = FillUndefined | FillNull | FillString string | FillArray "fieldpath list"

text \<open>
  The options object: \<open>opt_method\<close> and \<open>opt_limit\<close> are \<open>None\<close> when the option is
  left out, and the destructuring then supplies \<open>"zero"\<close> and null.
\<close>

record options =
  opt_fieldSpec :: fillSpec
  opt_method :: "string option"
  opt_limit :: "int option"

datatype ctor_arg = OtherFiller filler | Pipeline | NeitherOne

text \<open>
  Modelled from the spec: the base class Processor is not among the sources. The spec's
  contract for it (construction from a pipeline or from another instance, the push entry
  point, \<open>emit\<close> and \<open>hasObservers\<close>) has no property \<open>fieldSpec\<close>, and Filler
  assigns only \<open>_fieldSpec\<close>; the property \<open>this.fieldSpec\<close> read by the constructor is
  therefore undefined.
\<close>

definition this_fieldSpec :: "fieldpath list option" where
  "this_fieldSpec = None"

text \<open>
  The constructor. After the members are set, the method is checked, \<open>_fieldSpec\<close> is
  brought to a list, and for the linear method the length of \<open>this.fieldSpec\<close> is
  read: reading \<open>length\<close> of undefined raises a TypeError.
\<close>

definition Filler_new :: "ctor_arg \<Rightarrow> options \<Rightarrow> error + filler" where
  "Filler_new arg1 opts =
     (case (case arg1 of
              OtherFiller other \<Rightarrow>
                Inr (case u_fieldSpec other of None \<Rightarrow> FillUndefined | Some ps \<Rightarrow> FillArray ps,
                     u_method other, u_limit other)
            | Pipeline \<Rightarrow>
                Inr (opt_fieldSpec opts,
                     case opt_method opts of None \<Rightarrow> ''zero'' | Some m \<Rightarrow> m,
                     opt_limit opts)
            | NeitherOne \<Rightarrow> Inl UnknownFillerArg) of
        Inl err \<Rightarrow> Inl err
      | Inr (fieldSpec, method, limit) \<Rightarrow>
          if method \<notin> set [''zero'', ''pad'', ''linear''] then Inl (UnknownMethod method)
          else
            (let this = \<lparr> u_fieldSpec =
                           (case fieldSpec of
                              FillString s \<Rightarrow> Some [PathString s]
                            | FillNull \<Rightarrow> Some [PathString ''value'']
                            | FillArray ps \<Rightarrow> Some ps
                            | FillUndefined \<Rightarrow> None),
                         u_method = method,
                         u_limit = limit,
                         u_previousEvent = None,
                         u_keyCount = [],
                         u_lastGoodLinear = JNull,
                         u_linearFillCache = [] \<rparr>
             in if method = ''linear'' then
                  (case this_fieldSpec of
                     None \<Rightarrow> Inl TypeError
                   | Some ps \<Rightarrow> if length ps > 1 then Inl LinearSingleColumn else Inr this)
                else Inr this))"

text \<open>
  The counter of a path key. It is read only after the loop body has initialised it.
\<close>

definition keyCount_at :: "filler \<Rightarrow> string \<Rightarrow> int" where
  "keyCount_at this pathKey = (case map_of (u_keyCount this) pathKey of None \<Rightarrow> 0 | Some n \<Rightarrow> n)"

text \<open>\<open>this._limit && this._keyCount[pathKey] >= this._limit\<close>: null and 0 are falsy.\<close>

definition limit_hit :: "filler \<Rightarrow> string \<Rightarrow> bool" where
  "limit_hit this pathKey =
     (case u_limit this of
        None \<Rightarrow> False
      | Some l \<Rightarrow> l \<noteq> 0 \<and> keyCount_at this pathKey \<ge> l)"

text \<open>One round of the loop of \<open>_padAndZero\<close>, on the data so far and the filler's state.\<close>

definition padAndZero_path :: "fieldpath \<Rightarrow> jsval \<times> filler \<Rightarrow> jsval \<times> filler" where
  "padAndZero_path path st =
     (case st of (newData, this0) \<Rightarrow>
        let fieldPath = fieldPathToArray path;
            pathKey = join '':'' fieldPath;
            this = (if map_of (u_keyCount this0) pathKey = None
                    then this0\<lparr>u_keyCount := AList.update pathKey 0 (u_keyCount this0)\<rparr>
                    else this0)
        in if \<not> hasIn newData fieldPath then (newData, this)
           else
             (let val = getIn newData fieldPath
              in if isMissing val then
                   (if limit_hit this pathKey then (newData, this)
                    else if u_method this = ''zero'' then
                      (setIn newData fieldPath (JNum 0),
                       this\<lparr>u_keyCount :=
                              AList.update pathKey (keyCount_at this pathKey + 1) (u_keyCount this)\<rparr>)
                    else if u_method this = ''pad'' then
                      (case u_previousEvent this of
                         None \<Rightarrow> (newData, this)
                       | Some previousEvent \<Rightarrow>
                           (let prevVal = getIn (Event_data previousEvent) fieldPath
                            in if \<not> isMissing prevVal then
                                 (setIn newData fieldPath prevVal,
                                  this\<lparr>u_keyCount :=
                                         AList.update pathKey (keyCount_at this pathKey + 1)
                                           (u_keyCount this)\<rparr>)
                               else (newData, this)))
                    else (newData, this))
                 else (newData, this\<lparr>u_keyCount := AList.update pathKey 0 (u_keyCount this)\<rparr>)))"

fun padAndZero :: "fieldpath list \<Rightarrow> jsval \<times> filler \<Rightarrow> jsval \<times> filler" where
  "padAndZero [] st = st"
| "padAndZero (path # paths) st = padAndZero paths (padAndZero_path path st)"

text \<open>
  Modelled from the spec: the number that the linear policy computes with. The spec
  leaves open what the last good value is before any good value has come; the member
  starts as null, which JavaScript's arithmetic takes for 0, and anything else that is
  not a number gives NaN.
\<close>

fun to_rat :: "jsval \<Rightarrow> rat option" where
  "to_rat (JNum x) = Some x"
| "to_rat JNull = Some 0"
| "to_rat _ = None"

text \<open>
  Modelled from the spec: the value for the \<open>i\<close>-th event (from 1) of a queue of \<open>n\<close>,
  \<open>g0 + step * i\<close> with \<open>step = (v - g0) / (n + 1)\<close>.
\<close>

definition interpolate :: "jsval \<Rightarrow> jsval \<Rightarrow> nat \<Rightarrow> nat \<Rightarrow> jsval" where
  "interpolate g0 v n i =
     (case (to_rat g0, to_rat v) of
        (Some a, Some b) \<Rightarrow> JNum (a + ((b - a) / of_nat (n + 1)) * of_nat i)
      | _ \<Rightarrow> JNaN)"

text \<open>Modelled from the spec: "set its value at \<open>p\<close>", on an event of any kind.\<close>

fun put_value :: "event \<Rightarrow> string list \<Rightarrow> jsval \<Rightarrow> event" where
  "put_value (Event t d) p x = Event t (setIn d p x)"
| "put_value (IndexedEvent i d) p x = IndexedEvent i (setIn d p x)"
| "put_value (TimeRangeEvent b e d) p x = TimeRangeEvent b e (setIn d p x)"

text \<open>
  Modelled from the spec: \<open>_linearFill\<close> is called by \<open>addEvent\<close> and is not defined
  in filler.js. The spec's linear policy: with \<open>p\<close> the sole path and \<open>v\<close> the event's
  value at \<open>p\<close>, a value that is not missing releases the queue, each queued event
  with its interpolated value at \<open>p\<close> and in arrival order, then the current event, and
  becomes the last good value; a missing value is queued with nothing emitted, unless
  a limit is set and the queue has reached it, when the event is emitted as it is.
\<close>

definition linearFill :: "filler \<Rightarrow> event \<Rightarrow> fieldpath list \<Rightarrow> event list \<times> filler" where
  "linearFill this event paths =
     (let p = fieldPathToArray (case paths of [] \<Rightarrow> PathOmitted | q # _ \<Rightarrow> q);
          v = getIn (Event_data event) p;
          queue = u_linearFillCache this;
          n = length queue
      in if \<not> isMissing v then
           (map (\<lambda>(i, queued). put_value queued p (interpolate (u_lastGoodLinear this) v n i))
                (zip [1 ..< n + 1] queue) @ [event],
            this\<lparr>u_lastGoodLinear := v, u_linearFillCache := []\<rparr>)
         else if (case u_limit this of None \<Rightarrow> False | Some l \<Rightarrow> int n \<ge> l) then
           ([event], this)
         else ([], this\<lparr>u_linearFillCache := queue @ [event]\<rparr>))"

text \<open>
  \<open>addEvent(event)\<close>. \<open>hasObservers()\<close> belongs to the base class and its answer is
  an argument here; the events handed to \<open>emit\<close>, in order, are the first component of
  the result, the filler after the call the second.
\<close>

definition addEvent :: "bool \<Rightarrow> filler \<Rightarrow> event \<Rightarrow> error + event list \<times> filler" where
  "addEvent hasObservers this event =
     (if hasObservers then
        (let d = Event_data event;
             paths = (case u_fieldSpec this of
                        None \<Rightarrow> map PathArray (generatePaths d)
                      | Some ps \<Rightarrow> ps)
         in if u_method this = ''zero'' \<or> u_method this = ''pad'' then
              (case padAndZero paths (d, this) of (newData, this') \<Rightarrow>
                 (case Event_setData event newData of
                    Inl err \<Rightarrow> Inl err
                  | Inr emit \<Rightarrow> Inr ([emit], this'\<lparr>u_previousEvent := Some emit\<rparr>)))
            else if u_method this = ''linear'' then Inr (linearFill this event paths)
            else Inr ([], this))
      else Inr ([], this))"

text \<open>
  A pipeline's use of a filler: it is built from the options, then the events are pushed
  in order. The result lists, for every event pushed, what was emitted during that call
  and the filler after it.
\<close>

fun feed :: "filler \<Rightarrow> event list \<Rightarrow> error + (event list \<times> filler) list" where
  "feed this [] = Inr []"
| "feed this (e # es) =
     (case addEvent True this e of
        Inl err \<Rightarrow> Inl err
      | Inr (emitted, this') \<Rightarrow>
          (case feed this' es of
             Inl err \<Rightarrow> Inl err
           | Inr rest \<Rightarrow> Inr ((emitted, this') # rest)))"

definition run_filler :: "options \<Rightarrow> event list \<Rightarrow> error + (event list \<times> filler) list" where
  "run_filler opts es =
     (case Filler_new Pipeline opts of Inl err \<Rightarrow> Inl err | Inr this \<Rightarrow> feed this es)"

section \<open>Notions used in the statements\<close>

text \<open>The list stored under a key of a dictionary of lists; empty when the key is absent.\<close>

definition look :: "(string \<times> 'a list) list \<Rightarrow> string \<Rightarrow> 'a list" where
  "look m k = (case map_of m k of None \<Rightarrow> [] | Some xs \<Rightarrow> xs)"

text \<open>Event data as an Immutable Map has it: a mapping, each key once.\<close>

definition is_mapping :: "jsval \<Rightarrow> bool" where
  "is_mapping d = (is_map d \<and> distinct (map fst (entries d)))"

text \<open>
  Event data on which \<open>combine\<close> walks the fields as they are: a mapping that has no
  number under \<open>length\<close> and no field named like an inherited property.
\<close>

definition plain_data :: "jsval \<Rightarrow> bool" where
  "plain_data d =
     (is_mapping d \<and>
      (case imm_get d ''length'' of JNum x \<Rightarrow> False | _ \<Rightarrow> True) \<and>
      list_all (\<lambda>k. k \<notin> set inherited_names) (map fst (entries d)))"

definition field_names :: "event \<Rightarrow> string set" where
  "field_names e = fst ` set (entries (Event_data e))"

text \<open>The values under a field, from those events of a list that carry the field, in order.\<close>

definition field_values :: "string \<Rightarrow> event list \<Rightarrow> jsval list" where
  "field_values f es =
     map (\<lambda>e. imm_get (Event_data e) f) (filter (\<lambda>e. f \<in> field_names e) es)"

text \<open>
  An output event carries exactly the fields reduced for a list of events: its data is a
  mapping whose keys are the fields present in any of the events, and under each field
  lies the reducer's result on the values of that field, in order, from the events that
  carry it.
\<close>

definition carries :: "(jsval list \<Rightarrow> jsval) \<Rightarrow> event \<Rightarrow> event list \<Rightarrow> bool" where
  "carries reducer out es =
     (is_mapping (Event_data out) \<and>
      fst ` set (entries (Event_data out)) = (\<Union>e\<in>set es. field_names e) \<and>
      (\<forall>f\<in>(\<Union>e\<in>set es. field_names e).
         map_of (entries (Event_data out)) f = Some (reducer (field_values f es))))"

text \<open>
  The deep merge that the specification of \<open>merge\<close> speaks of, in its words: recursive
  inside nested mappings, a later value replacing an earlier one where they conflict.
\<close>

fun deep_merge :: "jsval \<Rightarrow> jsval \<Rightarrow> jsval"
  and deep_merge_entries ::
    "(string \<times> jsval) list \<Rightarrow> (string \<times> jsval) list \<Rightarrow> (string \<times> jsval) list" where
  "deep_merge (JMap a) (JMap b) = JMap (deep_merge_entries a b)"
| "deep_merge a b = b"
| "deep_merge_entries a [] = a"
| "deep_merge_entries a ((k, v) # b) =
     deep_merge_entries
       (AList.update k (case map_of a k of None \<Rightarrow> v | Some old \<Rightarrow> deep_merge old v) a) b"

definition deep_merge_all :: "jsval list \<Rightarrow> jsval" where
  "deep_merge_all ds = foldl deep_merge (JMap []) ds"

section \<open>Replacing the data of an event\<close>

text \<open>
  C1, as the claim has it, fails: \<open>setData\<close> converts its argument with
  \<open>dataFromArg\<close>, which raises on null (and on undefined and booleans), so no event
  is returned for such a replacement.
\<close>

theorem setData_null_fails:
  "Event_setData (Event 0 (JMap [])) JNull = Inl BadEventData \<and>
   setData_at [Event 0 (JMap [])] 0 JNull = Inl BadEventData"
  by (simp add: setData_at_def)

text \<open>
  C1, amended: for every event and every replacement data that \<open>dataFromArg\<close>
  converts, \<open>setData\<close> returns a new event (a reference no existing object has) with
  the temporal identity of the receiver and the converted data, and the receiver, like
  every other existing event, is as it was before the call.
\<close>

theorem setData_returns_new_event:
  assumes "this < length heap" and "dataFromArg d = Inr c"
  shows "\<exists>e'. setData_at heap this d = Inr (length heap, heap @ [e']) \<and>
           identity e' = identity (heap ! this) \<and> Event_data e' = c \<and>
           length heap \<noteq> this \<and> (\<forall>i < length heap. (heap @ [e']) ! i = heap ! i)"
  using assms by (cases "heap ! this") (auto simp: setData_at_def nth_append)

text \<open>An instance: replacing the data of the only allocated event by the number 5.\<close>

theorem setData_returns_new_event_witness:
  "(0::nat) < length [Event 0 (JMap [])] \<and>
   dataFromArg (JNum 5) = Inr (JMap [(''value'', JNum 5)]) \<and>
   setData_at [Event 0 (JMap [])] 0 (JNum 5) =
     Inr (1, [Event 0 (JMap []), Event 0 (JMap [(''value'', JNum 5)])])"
proof -
  have h1: "(0::nat) < length [Event 0 (JMap [])]" by simp
  have h2: "dataFromArg (JNum 5) = Inr (JMap [(''value'', JNum 5)])" by simp
  from setData_returns_new_event [OF h1 h2] obtain e' where
    r: "setData_at [Event 0 (JMap [])] 0 (JNum 5) =
          Inr (length [Event 0 (JMap [])], [Event 0 (JMap [])] @ [e'])" and
    i: "identity e' = identity ([Event 0 (JMap [])] ! 0)" and
    d: "Event_data e' = JMap [(''value'', JNum 5)]"
    by blast
  from i d have "e' = Event 0 (JMap [(''value'', JNum 5)])" by (cases e') auto
  with r h1 h2 show ?thesis by simp
qed

section \<open>Empty input\<close>

text \<open>
  C10: on the empty collection both \<open>merge\<close> and \<open>combine\<close> return the empty list of
  events, by the test on the length that precedes the grouping; no error arises and the
  reducer, whatever it is, is not consulted.
\<close>

theorem merge_combine_empty:
  "Event_merge [] = Inr [] \<and> Event_combine [] fieldSpec reducer = Inr []"
  by (simp add: Event_merge_def Event_combine_def)

section \<open>Constructing a filler\<close>

lemma Filler_new_zero_pad:
  assumes "m = ''zero'' \<or> m = ''pad''"
  shows "\<exists>this. Filler_new Pipeline \<lparr>opt_fieldSpec = fs, opt_method = Some m, opt_limit = l\<rparr> = Inr this"
  using assms by (auto simp: Filler_new_def)

lemma Filler_new_unknown_method:
  assumes "m \<noteq> ''zero''" and "m \<noteq> ''pad''" and "m \<noteq> ''linear''"
  shows "Filler_new Pipeline \<lparr>opt_fieldSpec = fs, opt_method = Some m, opt_limit = l\<rparr> =
           Inl (UnknownMethod m)"
  using assms by (simp add: Filler_new_def)

text \<open>
  C6 does not hold of the constructor: with the method linear it reads
  \<open>this.fieldSpec.length\<close> where \<open>this._fieldSpec.length\<close> is meant, and the read
  raises a TypeError whatever the field specification is. No filler with the linear
  method can be built, with one path or with several, and the error for several paths
  is never the one raised.
\<close>

theorem Filler_linear_never_constructs:
  "Filler_new Pipeline \<lparr>opt_fieldSpec = fs, opt_method = Some ''linear'', opt_limit = l\<rparr> =
     Inl TypeError"
  by (simp add: Filler_new_def this_fieldSpec_def)

section \<open>Dictionaries of lists\<close>

lemma map_of_map_entry:
  "map_of (AList.map_entry k f al) k' =
     (if k' = k then map_option f (map_of al k) else map_of al k')"
  by (induction al) auto

lemma map_of_push_at:
  "map_of (push_at k x m) k' = (if k' = k then Some (look m k @ [x]) else map_of m k')"
  by (auto simp: push_at_def look_def map_of_map_entry update_conv' split: option.splits)

lemma look_push_at: "look (push_at k x m) k' = look m k' @ (if k' = k then [x] else [])"
  by (simp add: look_def map_of_push_at split: option.splits)

lemma keys_map_entry: "map fst (AList.map_entry k f al) = map fst al"
  by (induction al) auto

lemma keys_push_at: "fst ` set (push_at k x m) = insert k (fst ` set m)"
  by (auto simp: push_at_def dom_map_of_conv_image_fst [symmetric] map_of_map_entry update_conv' dom_def split: if_splits)

lemma distinct_push_at: "distinct (map fst m) \<Longrightarrow> distinct (map fst (push_at k x m))"
  by (simp add: push_at_def keys_map_entry distinct_update)

lemma map_of_look:
  "k \<in> fst ` set m \<Longrightarrow> map_of m k = Some (look m k)"
  by (auto simp: look_def dom_map_of_conv_image_fst [symmetric] split: option.splits)

section \<open>The grouping loop\<close>

lemma group_event_Inr:
  "group_event e (em, tm) = Inr (em', tm') \<Longrightarrow>
     em' = push_at (event_key e) e em \<and>
     map_of tm' (event_key e) = Some (event_type e) \<and>
     (\<forall>k t. map_of tm k = Some t \<longrightarrow> map_of tm' k = Some t)"
  by (auto simp: group_event_def Let_def update_conv' split: option.splits if_splits)

lemma group_event_Inl:
  "group_event e maps = Inl err \<Longrightarrow> err = NotHomogeneous (event_key e)"
  by (auto simp: group_event_def Let_def split: option.splits if_splits prod.splits)

lemma group_events_Inl:
  "group_events es maps = Inl err \<Longrightarrow> \<exists>k. err = NotHomogeneous k"
proof (induction es arbitrary: maps)
  case Nil
  then show ?case by simp
next
  case (Cons e es)
  show ?case
  proof (cases "group_event e maps")
    case (Inl a)
    with Cons.prems show ?thesis by (auto dest: group_event_Inl)
  next
    case (Inr maps')
    with Cons.prems have "group_events es maps' = Inl err" by simp
    then show ?thesis by (rule Cons.IH)
  qed
qed

lemma group_events_look:
  "group_events es (em, tm) = Inr (em', tm') \<Longrightarrow>
     look em' k = look em k @ filter (\<lambda>e. event_key e = k) es"
proof (induction es arbitrary: em tm)
  case Nil
  then show ?case by simp
next
  case (Cons e es)
  from Cons.prems obtain em1 tm1 where
    step: "group_event e (em, tm) = Inr (em1, tm1)" and
    rest: "group_events es (em1, tm1) = Inr (em', tm')"
    by (auto split: sum.splits)
  from step have "em1 = push_at (event_key e) e em" by (simp add: group_event_Inr)
  with Cons.IH [OF rest] show ?case by (auto simp: look_push_at)
qed

lemma group_events_keys:
  "group_events es (em, tm) = Inr (em', tm') \<Longrightarrow>
     fst ` set em' = fst ` set em \<union> event_key ` set es"
proof (induction es arbitrary: em tm)
  case Nil
  then show ?case by simp
next
  case (Cons e es)
  from Cons.prems obtain em1 tm1 where
    step: "group_event e (em, tm) = Inr (em1, tm1)" and
    rest: "group_events es (em1, tm1) = Inr (em', tm')"
    by (auto split: sum.splits)
  from step have "em1 = push_at (event_key e) e em" by (simp add: group_event_Inr)
  with Cons.IH [OF rest] show ?case by (simp add: keys_push_at)
qed

lemma group_events_distinct:
  "group_events es (em, tm) = Inr (em', tm') \<Longrightarrow> distinct (map fst em) \<Longrightarrow>
     distinct (map fst em')"
proof (induction es arbitrary: em tm)
  case Nil
  then show ?case by simp
next
  case (Cons e es)
  from Cons.prems obtain em1 tm1 where
    step: "group_event e (em, tm) = Inr (em1, tm1)" and
    rest: "group_events es (em1, tm1) = Inr (em', tm')"
    by (auto split: sum.splits)
  from step have "em1 = push_at (event_key e) e em" by (simp add: group_event_Inr)
  with Cons.prems(2) have "distinct (map fst em1)" by (simp add: distinct_push_at)
  with rest show ?case by (rule Cons.IH)
qed

lemma group_events_types:
  "group_events es (em, tm) = Inr (em', tm') \<Longrightarrow>
     (\<forall>k t. map_of tm k = Some t \<longrightarrow> map_of tm' k = Some t) \<and>
     (\<forall>e\<in>set es. map_of tm' (event_key e) = Some (event_type e))"
proof (induction es arbitrary: em tm)
  case Nil
  then show ?case by simp
next
  case (Cons e es)
  from Cons.prems obtain em1 tm1 where
    step: "group_event e (em, tm) = Inr (em1, tm1)" and
    rest: "group_events es (em1, tm1) = Inr (em', tm')"
    by (auto split: sum.splits)
  note s = group_event_Inr [OF step]
  note r = Cons.IH [OF rest]
  from s r show ?case by auto
qed

lemma group_events_homogeneous:
  assumes "group_events es (em, tm) = Inr (em', tm')"
    and "e1 \<in> set es" "e2 \<in> set es" "event_key e1 = event_key e2"
  shows "event_type e1 = event_type e2"
proof -
  from group_events_types [OF assms(1)] assms(2,3)
  have "map_of tm' (event_key e1) = Some (event_type e1)"
    and "map_of tm' (event_key e2) = Some (event_type e2)" by auto
  with assms(4) show ?thesis by simp
qed

lemma group_events_succeeds:
  assumes "\<forall>e1\<in>set es. \<forall>e2\<in>set es. event_key e1 = event_key e2 \<longrightarrow> event_type e1 = event_type e2"
    and "\<forall>e\<in>set es. \<forall>t. map_of tm (event_key e) = Some t \<longrightarrow> t = event_type e"
  shows "\<exists>maps. group_events es (em, tm) = Inr maps"
  using assms
proof (induction es arbitrary: em tm)
  case Nil
  then show ?case by simp
next
  case (Cons e es)
  let ?k = "event_key e"
  have hom: "\<forall>e1\<in>set es. \<forall>e2\<in>set es. event_key e1 = event_key e2 \<longrightarrow> event_type e1 = event_type e2"
    using Cons.prems(1) by (meson list.set_intros(2))
  have same: "event_type e' = event_type e" if "e' \<in> set es" "event_key e' = ?k" for e'
    using Cons.prems(1) that by (meson list.set_intros)
  have old: "t = event_type e'" if "e' \<in> set es" "map_of tm (event_key e') = Some t" for e' t
    using Cons.prems(2) that by (meson list.set_intros(2))
  show ?case
  proof (cases "map_of tm ?k")
    case None
    then have step: "group_event e (em, tm) = Inr (push_at ?k e em, AList.update ?k (event_type e) tm)"
      by (simp add: group_event_def Let_def)
    have "\<forall>e'\<in>set es. \<forall>t. map_of (AList.update ?k (event_type e) tm) (event_key e') = Some t
            \<longrightarrow> t = event_type e'"
    proof (intro ballI allI impI)
      fix e' t
      assume e': "e' \<in> set es"
        and t: "map_of (AList.update ?k (event_type e) tm) (event_key e') = Some t"
      show "t = event_type e'"
      proof (cases "event_key e' = ?k")
        case True
        with t have "t = event_type e" by (simp add: update_conv')
        with same [OF e' True] show ?thesis by simp
      next
        case False
        with t have "map_of tm (event_key e') = Some t" by (simp add: update_conv')
        with e' show ?thesis by (rule old)
      qed
    qed
    from Cons.IH [OF hom this] obtain maps where
      "group_events es (push_at ?k e em, AList.update ?k (event_type e) tm) = Inr maps" ..
    with step show ?thesis by simp
  next
    case (Some t)
    with Cons.prems(2) have "t = event_type e" by (meson list.set_intros(1))
    with Some have step: "group_event e (em, tm) = Inr (push_at ?k e em, tm)"
      by (simp add: group_event_def Let_def)
    have "\<forall>e'\<in>set es. \<forall>t. map_of tm (event_key e') = Some t \<longrightarrow> t = event_type e'"
      using old by blast
    from Cons.IH [OF hom this] obtain maps where
      "group_events es (push_at ?k e em, tm) = Inr maps" ..
    with step show ?thesis by simp
  qed
qed

text \<open>
  C2: when the input holds two events with the same group key and of different kinds,
  \<open>merge\<close> fails with the error "Events for time <key> are not homogeneous", and so
  does \<open>combine\<close> whatever the field specification and the reducer are. The failure
  is the whole result: no list of events is returned.
\<close>

theorem heterogeneous_group_fails:
  assumes "e1 \<in> set events" and "e2 \<in> set events"
    and "event_key e1 = event_key e2" and "event_type e1 \<noteq> event_type e2"
  shows "(\<exists>key. Event_merge events = Inl (NotHomogeneous key)) \<and>
         (\<exists>key. Event_combine events fieldSpec reducer = Inl (NotHomogeneous key))"
proof -
  from assms(1) have ne: "length events \<noteq> 0" by auto
  obtain err where err: "group_events events ([], []) = Inl err"
  proof (cases "group_events events ([], [])")
    case (Inl a)
    then show ?thesis by (rule that)
  next
    case (Inr maps)
    then obtain em tm where "group_events events ([], []) = Inr (em, tm)" by (cases maps) auto
    from group_events_homogeneous [OF this assms(1,2,3)] assms(4) show ?thesis by simp
  qed
  then obtain key where "err = NotHomogeneous key" by (auto dest: group_events_Inl)
  with err ne show ?thesis by (auto simp: Event_merge_def Event_combine_def)
qed

text \<open>An instance: a point event at 5 ms and an indexed event whose index is the string 5.\<close>

theorem heterogeneous_group_fails_witness:
  "event_key (Event 5 (JMap [])) = event_key (IndexedEvent ''5'' (JMap [])) \<and>
   event_type (Event 5 (JMap [])) \<noteq> event_type (IndexedEvent ''5'' (JMap [])) \<and>
   (\<exists>key. Event_merge [Event 5 (JMap []), IndexedEvent ''5'' (JMap [])] =
            Inl (NotHomogeneous key)) \<and>
   (\<exists>key. Event_combine [Event 5 (JMap []), IndexedEvent ''5'' (JMap [])] SpecUndefined JList =
            Inl (NotHomogeneous key))"
proof -
  have k: "event_key (Event 5 (JMap [])) = event_key (IndexedEvent ''5'' (JMap []))"
    by (simp add: string_of_int_def dec_of_nat.simps digit_def)
  have t: "event_type (Event 5 (JMap [])) \<noteq> event_type (IndexedEvent ''5'' (JMap []))"
    by simp
  have m1: "Event 5 (JMap []) \<in> set [Event 5 (JMap []), IndexedEvent ''5'' (JMap [])]"
    by simp
  have m2: "IndexedEvent ''5'' (JMap []) \<in> set [Event 5 (JMap []), IndexedEvent ''5'' (JMap [])]"
    by simp
  from heterogeneous_group_fails [OF m1 m2 k t, of SpecUndefined JList] k t
  show ?thesis by simp
qed

section \<open>Keys and the instants they come from\<close>

lemma digit_cases:
  assumes "d < 10"
  shows "d = 0 \<or> d = 1 \<or> d = 2 \<or> d = 3 \<or> d = 4 \<or> d = 5 \<or> d = 6 \<or> d = 7 \<or> d = 8 \<or> d = (9::nat)"
  using assms by arith

lemma digit_val_digit: "d < 10 \<Longrightarrow> digit_val (digit d) = d"
  using digit_cases [of d] by (auto simp: digit_val_def digit_def)

lemma digit_not_sep: "digit d \<noteq> CHR '','' \<and> digit d \<noteq> CHR ''-''"
proof -
  have "d mod 10 < 10" by simp
  from digit_cases [OF this] show ?thesis
    by (auto simp: digit_def)
qed

lemma nat_of_dec_snoc: "nat_of_dec (s @ [c]) = 10 * nat_of_dec s + digit_val c"
  by (simp add: nat_of_dec_def)

lemma nat_of_dec_of_nat: "nat_of_dec (dec_of_nat n) = n"
proof (induction n rule: dec_of_nat.induct)
  case (1 n)
  show ?case
  proof (cases "n < 10")
    case True
    then show ?thesis
      by (subst dec_of_nat.simps) (simp add: nat_of_dec_def digit_val_digit)
  next
    case False
    with 1 have "nat_of_dec (dec_of_nat (n div 10)) = n div 10" by simp
    with False show ?thesis
      by (subst dec_of_nat.simps) (simp add: nat_of_dec_snoc digit_val_digit)
  qed
qed

lemma dec_of_nat_chars: "c \<in> set (dec_of_nat n) \<Longrightarrow> c \<noteq> CHR '','' \<and> c \<noteq> CHR ''-''"
proof (induction n rule: dec_of_nat.induct)
  case (1 n)
  show ?case
  proof (cases "n < 10")
    case True
    with "1.prems" have "c = digit n" by (subst (asm) dec_of_nat.simps) simp
    then show ?thesis by (simp add: digit_not_sep)
  next
    case False
    with "1.prems" have "c \<in> set (dec_of_nat (n div 10)) \<or> c = digit (n mod 10)"
      by (subst (asm) dec_of_nat.simps) auto
    with 1 False show ?thesis by (auto simp: digit_not_sep)
  qed
qed

lemma dec_of_nat_not_Nil: "dec_of_nat n \<noteq> []"
  by (subst dec_of_nat.simps) simp

lemma to_number_dec: "to_number (dec_of_nat n) = int n"
proof (cases "dec_of_nat n")
  case Nil
  then show ?thesis by (simp add: dec_of_nat_not_Nil)
next
  case (Cons c s)
  then have "c \<in> set (dec_of_nat n)" by simp
  then have "c \<noteq> CHR ''-''" by (simp add: dec_of_nat_chars)
  with Cons have "to_number (dec_of_nat n) = int (nat_of_dec (dec_of_nat n))" by simp
  then show ?thesis by (simp add: nat_of_dec_of_nat)
qed

lemma to_number_string_of_int: "to_number (string_of_int i) = i"
  by (simp add: string_of_int_def nat_of_dec_of_nat to_number_dec)

lemma string_of_int_no_comma: "CHR '','' \<notin> set (string_of_int i)"
  by (auto simp: string_of_int_def dest: dec_of_nat_chars)

lemma split_on_none: "c \<notin> set s \<Longrightarrow> split_on c s = [s]"
  by (induction s) auto

lemma split_on_first: "c \<notin> set a \<Longrightarrow> split_on c (a @ c # s) = a # split_on c s"
  by (induction a) auto

lemma split_range_key:
  "split_on CHR '','' (string_of_int b @ '','' @ string_of_int e) = [string_of_int b, string_of_int e]"
  by (simp add: split_on_first split_on_none string_of_int_no_comma)

section \<open>The events built from the groups\<close>

lemma map_of_foldl_update:
  "distinct (map fst b) \<Longrightarrow>
     map_of (foldl (\<lambda>m (k, v). AList.update k v m) a b) = map_of a ++ map_of b"
proof (induction b arbitrary: a)
  case Nil
  then show ?case by simp
next
  case (Cons p b)
  obtain k v where p: "p = (k, v)" by (cases p)
  with Cons.prems have fresh: "map_of b k = None" and dist: "distinct (map fst b)"
    by (auto simp: map_of_eq_None_iff)
  have "map_of (foldl (\<lambda>m (k, v). AList.update k v m) a (p # b)) =
          map_of (AList.update k v a) ++ map_of b"
    using Cons.IH [OF dist, of "AList.update k v a"] p by simp
  also have "\<dots> = map_of a ++ map_of (p # b)"
    using fresh p by (auto simp: update_conv' map_add_def fun_eq_iff split: option.splits)
  finally show ?case .
qed

lemma entries_imm_merge:
  "is_mapping b \<Longrightarrow> map_of (entries (imm_merge a b)) = map_of (entries a) ++ map_of (entries b)"
  by (simp add: imm_merge_def map_of_foldl_update is_mapping_def)

lemma foldl_imm_merge_is_map:
  "is_map d \<Longrightarrow> is_map (foldl (\<lambda>data event. imm_merge data (Event_data event)) d es)"
  by (induction es arbitrary: d) (auto simp: imm_merge_def)

lemma foldl_imm_merge_map_of:
  "\<forall>e\<in>set es. is_mapping (Event_data e) \<Longrightarrow>
   map_of (entries (foldl (\<lambda>data event. imm_merge data (Event_data event)) d es)) =
     foldl (++) (map_of (entries d)) (map (\<lambda>e. map_of (entries (Event_data e))) es)"
  by (induction es arbitrary: d) (auto simp: entries_imm_merge)

lemma merge_data_is_map: "is_map (merge_data es)"
  by (simp add: merge_data_def foldl_imm_merge_is_map)

lemma merge_data_map_of:
  "\<forall>e\<in>set es. is_mapping (Event_data e) \<Longrightarrow>
   map_of (entries (merge_data es)) =
     foldl (++) Map.empty (map (\<lambda>e. map_of (entries (Event_data e))) es)"
  by (simp add: merge_data_def foldl_imm_merge_map_of)

lemma collect_member:
  "collect rs = Inr ys \<Longrightarrow> y \<in> set ys \<Longrightarrow> \<exists>xs. Inr xs \<in> set rs \<and> y \<in> set xs"
proof (induction rs arbitrary: ys)
  case Nil
  then show ?case by simp
next
  case (Cons r rs)
  from Cons.prems(1) obtain xs zs where
    r: "r = Inr xs" and rest: "collect rs = Inr zs" and ys: "ys = xs @ zs"
    by (auto split: sum.splits)
  show ?case
  proof (cases "y \<in> set xs")
    case True
    with r show ?thesis by auto
  next
    case False
    with Cons.prems(2) ys have "y \<in> set zs" by simp
    from Cons.IH [OF rest this] show ?thesis by auto
  qed
qed

lemma out_event_of_group:
  assumes "is_map d" and "out_event (Some (event_type e)) (event_key e) d = Inr xs" and "out \<in> set xs"
  shows "identity out = identity e \<and> Event_data out = d"
proof -
  from assms(1) obtain kvs where d: "d = JMap kvs" by (cases d) auto
  show ?thesis
  proof (cases e)
    case (Event t d0)
    with assms(2,3) d show ?thesis
      by (auto simp: out_event_def Event_new_def to_number_string_of_int)
  next
    case (IndexedEvent i d0)
    with assms(2,3) d show ?thesis
      by (auto simp: out_event_def IndexedEvent_new_def)
  next
    case (TimeRangeEvent b e' d0)
    with assms(2,3) d show ?thesis
      using split_range_key [of b e']
      by (auto simp: out_event_def TimeRangeEvent_new_def to_number_string_of_int Let_def)
  qed
qed

text \<open>Every event pushed by the second loop comes from one group of the first.\<close>

lemma grouped_output:
  assumes grp: "group_events events ([], []) = Inr (eventMap, typeMap)"
    and col: "collect (map (\<lambda>(key, es). out_event (map_of typeMap key) key (g es)) eventMap) = Inr outs"
    and out: "out \<in> set outs"
    and g: "\<And>es. is_map (g es)"
  shows "\<exists>e\<in>set events. identity out = identity e \<and>
           Event_data out = g (filter (\<lambda>e'. event_key e' = event_key e) events)"
proof -
  from collect_member [OF col out] obtain xs where
    "Inr xs \<in> set (map (\<lambda>(key, es). out_event (map_of typeMap key) key (g es)) eventMap)"
    and oxs: "out \<in> set xs" by blast
  then obtain p where p: "p \<in> set eventMap"
    "(case p of (key, es) \<Rightarrow> out_event (map_of typeMap key) key (g es)) = Inr xs"
    by auto
  obtain key es where kes: "p = (key, es)" by (cases p)
  with p have mem: "(key, es) \<in> set eventMap" and
    xs: "out_event (map_of typeMap key) key (g es) = Inr xs"
    by auto
  from group_events_distinct [OF grp] have "distinct (map fst eventMap)" by simp
  with mem have "map_of eventMap key = Some es" by simp
  then have "look eventMap key = es" by (simp add: look_def)
  with group_events_look [OF grp, of key]
  have es: "es = filter (\<lambda>e. event_key e = key) events" by (simp add: look_def)
  from mem have "key \<in> fst ` set eventMap" by force
  with group_events_keys [OF grp] obtain e where e: "e \<in> set events" "event_key e = key"
    by auto
  with group_events_types [OF grp] have "map_of typeMap key = Some (event_type e)" by auto
  with xs e have "out_event (Some (event_type e)) (event_key e) (g es) = Inr xs" by simp
  from out_event_of_group [OF g this oxs] e es show ?thesis by auto
qed

lemma collect_succeeds:
  "\<forall>r\<in>set rs. \<exists>xs. r = Inr xs \<Longrightarrow> \<exists>ys. collect rs = Inr ys"
  by (induction rs) (auto split: sum.splits)

lemma out_event_succeeds: "is_map d \<Longrightarrow> \<exists>xs. out_event ty key d = Inr xs"
proof -
  assume "is_map d"
  then obtain kvs where d: "d = JMap kvs" by (cases d) auto
  show ?thesis
  proof (cases ty)
    case None
    then show ?thesis by (simp add: out_event_def)
  next
    case (Some t)
    with d show ?thesis
      by (cases t)
         (simp_all add: out_event_def Event_new_def IndexedEvent_new_def TimeRangeEvent_new_def
            Let_def)
  qed
qed

lemmas group_eval = Event_merge_def Event_combine_def group_event_def push_at_def out_event_def
  Event_new_def merge_data_def imm_merge_def combine_data_def json_fields_def
  inherited_names_def imm_get_def to_number_string_of_int Let_def

section \<open>Merging\<close>

text \<open>
  C3, as the claim has it, fails: \<open>merge\<close> uses \<open>Map.merge\<close>, which sets the entries
  of the later data on the earlier and does not descend into nested mappings. Two
  events at one time whose field \<open>a\<close> holds \<open>{x: 1}\<close> and \<open>{y: 2}\<close> merge into
  \<open>{a: {y: 2}}\<close>, where the deep merge of their data is \<open>{a: {x: 1, y: 2}}\<close>.
\<close>

theorem merge_not_deep:
  "Event_merge [Event 0 (JMap [(''a'', JMap [(''x'', JNum 1)])]),
                Event 0 (JMap [(''a'', JMap [(''y'', JNum 2)])])] =
     Inr [Event 0 (JMap [(''a'', JMap [(''y'', JNum 2)])])] \<and>
   deep_merge_all [JMap [(''a'', JMap [(''x'', JNum 1)])], JMap [(''a'', JMap [(''y'', JNum 2)])]] =
     JMap [(''a'', JMap [(''x'', JNum 1), (''y'', JNum 2)])] \<and>
   Event_data (Event 0 (JMap [(''a'', JMap [(''y'', JNum 2)])])) \<noteq>
     deep_merge_all [JMap [(''a'', JMap [(''x'', JNum 1)])], JMap [(''a'', JMap [(''y'', JNum 2)])]]"
  by (simp add: group_eval deep_merge_all_def)

text \<open>
  C3, amended: when \<open>merge\<close> returns, on events whose data are mappings, each output
  event has the temporal identity of an input event, and its data is the merge at the
  top level of the data of the events of that group in input order: under every field
  lies the whole value that the last event of the group carrying the field has there
  (\<open>m ++ m'\<close> is \<open>m\<close> overridden by \<open>m'\<close>).
\<close>

theorem merge_data_shallow:
  assumes "Event_merge events = Inr outs" and "out \<in> set outs"
    and wf: "\<forall>e\<in>set events. is_mapping (Event_data e)"
  shows "\<exists>e\<in>set events. identity out = identity e \<and>
           (let group = filter (\<lambda>e'. event_key e' = event_key e) events
            in Event_data out = merge_data group \<and>
               map_of (entries (Event_data out)) =
                 foldl (++) Map.empty (map (\<lambda>e'. map_of (entries (Event_data e'))) group))"
proof -
  from assms have ne: "length events \<noteq> 0" by (auto simp: Event_merge_def)
  with assms(1) obtain eventMap typeMap where
    grp: "group_events events ([], []) = Inr (eventMap, typeMap)" and
    col: "collect (map (\<lambda>(key, es). out_event (map_of typeMap key) key (merge_data es))
                     eventMap) = Inr outs"
    by (auto simp: Event_merge_def split: sum.splits)
  from grouped_output [OF grp col assms(2) merge_data_is_map]
  obtain e where e: "e \<in> set events" "identity out = identity e"
    "Event_data out = merge_data (filter (\<lambda>e'. event_key e' = event_key e) events)"
    by blast
  from wf have "\<forall>e'\<in>set (filter (\<lambda>e'. event_key e' = event_key e) events).
                  is_mapping (Event_data e')"
    by simp
  from merge_data_map_of [OF this] e show ?thesis by (auto simp: Let_def)
qed

text \<open>An instance: the two events of the counterexample, merged at the top level.\<close>

theorem merge_data_shallow_witness:
  "Event_merge [Event 0 (JMap [(''a'', JMap [(''x'', JNum 1)])]),
                Event 0 (JMap [(''a'', JMap [(''y'', JNum 2)])])] =
     Inr [Event 0 (JMap [(''a'', JMap [(''y'', JNum 2)])])] \<and>
   is_mapping (JMap [(''a'', JMap [(''x'', JNum 1)])]) \<and>
   is_mapping (JMap [(''a'', JMap [(''y'', JNum 2)])]) \<and>
   (\<exists>e\<in>set [Event 0 (JMap [(''a'', JMap [(''x'', JNum 1)])]),
              Event 0 (JMap [(''a'', JMap [(''y'', JNum 2)])])].
      identity (Event 0 (JMap [(''a'', JMap [(''y'', JNum 2)])])) = identity e \<and>
      (let group = filter (\<lambda>e'. event_key e' = event_key e)
                     [Event 0 (JMap [(''a'', JMap [(''x'', JNum 1)])]),
                      Event 0 (JMap [(''a'', JMap [(''y'', JNum 2)])])]
       in Event_data (Event 0 (JMap [(''a'', JMap [(''y'', JNum 2)])])) = merge_data group \<and>
          map_of (entries (Event_data (Event 0 (JMap [(''a'', JMap [(''y'', JNum 2)])])))) =
            foldl (++) Map.empty (map (\<lambda>e'. map_of (entries (Event_data e'))) group)))"
proof -
  let ?e1 = "Event 0 (JMap [(''a'', JMap [(''x'', JNum 1)])])"
  let ?e2 = "Event 0 (JMap [(''a'', JMap [(''y'', JNum 2)])])"
  have r: "Event_merge [?e1, ?e2] = Inr [?e2]" by (simp add: group_eval)
  have m: "?e2 \<in> set [?e2]" by simp
  have w1: "is_mapping (JMap [(''a'', JMap [(''x'', JNum 1)])])" by (simp add: is_mapping_def)
  have w2: "is_mapping (JMap [(''a'', JMap [(''y'', JNum 2)])])" by (simp add: is_mapping_def)
  from w1 w2 have wf: "\<forall>e\<in>set [?e1, ?e2]. is_mapping (Event_data e)" by simp
  note c = merge_data_shallow [OF r m wf]
  show ?thesis using r w1 w2 c by (intro conjI)
qed

section \<open>Combining\<close>

lemma json_fields_plain:
  "plain_data d \<Longrightarrow> json_fields d = Inr (map Name (map fst (entries d)))"
  by (cases d; cases "imm_get d ''length''")
     (auto simp: plain_data_def is_mapping_def json_fields_def split_def comp_def)

lemma push_fields_names:
  assumes "list_all (\<lambda>k. k \<notin> set inherited_names) ks" and "distinct ks"
  shows "\<exists>m'. push_fields e (map Name ks) m = Inr m' \<and>
           (\<forall>k. look m' k = look m k @ (if k \<in> set ks then [imm_get (Event_data e) k] else [])) \<and>
           fst ` set m' = fst ` set m \<union> set ks \<and>
           (distinct (map fst m) \<longrightarrow> distinct (map fst m'))"
  using assms
proof (induction ks arbitrary: m)
  case Nil
  then show ?case by simp
next
  case (Cons k ks)
  let ?m1 = "push_at k (imm_get (Event_data e) k) m"
  from Cons.prems have k: "k \<notin> set inherited_names" "k \<notin> set ks"
    and rest: "list_all (\<lambda>k. k \<notin> set inherited_names) ks" "distinct ks" by simp_all
  from Cons.IH [OF rest, of ?m1] obtain m' where
    r: "push_fields e (map Name ks) ?m1 = Inr m'" and
    l: "\<forall>k'. look m' k' = look ?m1 k' @ (if k' \<in> set ks then [imm_get (Event_data e) k'] else [])" and
    d: "fst ` set m' = fst ` set ?m1 \<union> set ks" and
    u: "distinct (map fst ?m1) \<longrightarrow> distinct (map fst m')"
    by blast
  from r k have "push_fields e (map Name (k # ks)) m = Inr m'" by simp
  moreover from l k have
    "\<forall>k'. look m' k' = look m k' @ (if k' \<in> set (k # ks) then [imm_get (Event_data e) k'] else [])"
    by (auto simp: look_push_at)
  moreover from d have "fst ` set m' = fst ` set m \<union> set (k # ks)"
    by (auto simp: keys_push_at)
  moreover from u have "distinct (map fst m) \<longrightarrow> distinct (map fst m')"
    by (simp add: distinct_push_at)
  ultimately show ?case by blast
qed

lemma collect_fields_plain:
  assumes "\<forall>e\<in>set es. plain_data (Event_data e)"
  shows "\<exists>m'. collect_fields None es m = Inr m' \<and>
           (\<forall>k. look m' k = look m k @ field_values k es) \<and>
           fst ` set m' = fst ` set m \<union> (\<Union>e\<in>set es. field_names e) \<and>
           (distinct (map fst m) \<longrightarrow> distinct (map fst m'))"
  using assms
proof (induction es arbitrary: m)
  case Nil
  then show ?case by (simp add: field_values_def)
next
  case (Cons e es)
  let ?ks = "map fst (entries (Event_data e))"
  from Cons.prems have pd: "plain_data (Event_data e)"
    and rest: "\<forall>e\<in>set es. plain_data (Event_data e)" by simp_all
  from pd have jf: "json_fields (Event_data e) = Inr (map Name ?ks)" by (rule json_fields_plain)
  from pd have ks: "list_all (\<lambda>k. k \<notin> set inherited_names) ?ks" "distinct ?ks"
    by (simp_all add: plain_data_def is_mapping_def)
  from push_fields_names [OF ks, of e m] obtain m1 where
    p: "push_fields e (map Name ?ks) m = Inr m1" and
    l1: "\<forall>k. look m1 k = look m k @ (if k \<in> set ?ks then [imm_get (Event_data e) k] else [])" and
    d1: "fst ` set m1 = fst ` set m \<union> set ?ks" and
    u1: "distinct (map fst m) \<longrightarrow> distinct (map fst m1)"
    by blast
  from Cons.IH [OF rest, of m1] obtain m' where
    r: "collect_fields None es m1 = Inr m'" and
    l: "\<forall>k. look m' k = look m1 k @ field_values k es" and
    d: "fst ` set m' = fst ` set m1 \<union> (\<Union>e\<in>set es. field_names e)" and
    u: "distinct (map fst m1) \<longrightarrow> distinct (map fst m')"
    by blast
  from jf p r have "collect_fields None (e # es) m = Inr m'" by simp
  moreover from l l1 have "\<forall>k. look m' k = look m k @ field_values k (e # es)"
    by (simp add: field_values_def field_names_def)
  moreover from d d1 have
    "fst ` set m' = fst ` set m \<union> (\<Union>e\<in>set (e # es). field_names e)"
    by (auto simp: field_names_def)
  moreover from u u1 have "distinct (map fst m) \<longrightarrow> distinct (map fst m')" by simp
  ultimately show ?case by blast
qed

lemma map_of_reduced:
  "map_of (map (\<lambda>(fieldName, values). (fieldName, r values)) m) k = map_option r (map_of m k)"
  by (induction m) auto

lemma keys_reduced:
  "map (fst \<circ> (\<lambda>(fieldName, values). (fieldName, r values))) m = map fst m"
  by (induction m) auto

lemma combine_data_plain:
  assumes "\<forall>e\<in>set es. plain_data (Event_data e)"
  shows "\<exists>kvs. combine_data None r es = Inr (JMap kvs) \<and> distinct (map fst kvs) \<and>
           fst ` set kvs = (\<Union>e\<in>set es. field_names e) \<and>
           (\<forall>f\<in>(\<Union>e\<in>set es. field_names e). map_of kvs f = Some (r (field_values f es)))"
proof -
  from collect_fields_plain [OF assms, of "[]"] obtain m where
    c: "collect_fields None es [] = Inr m" and
    l: "\<forall>k. look m k = field_values k es" and
    d: "fst ` set m = (\<Union>e\<in>set es. field_names e)" and
    u: "distinct (map fst m)"
    by (auto simp: look_def)
  let ?kvs = "map (\<lambda>(fieldName, values). (fieldName, r values)) m"
  from c have "combine_data None r es = Inr (JMap ?kvs)" by (simp add: combine_data_def)
  moreover from u have "distinct (map fst ?kvs)" by (simp add: keys_reduced)
  moreover have "fst ` set ?kvs = set (map fst m)"
    by (simp add: keys_reduced image_image split_def)
  with d have "fst ` set ?kvs = (\<Union>e\<in>set es. field_names e)" by simp
  moreover have "map_of ?kvs f = Some (r (field_values f es))"
    if "f \<in> (\<Union>e\<in>set es. field_names e)" for f
  proof -
    from that d have "f \<in> fst ` set m" by simp
    then have "map_of m f = Some (look m f)" by (rule map_of_look)
    with l show ?thesis by (simp add: map_of_reduced)
  qed
  ultimately show ?thesis by blast
qed

lemma event_key_of_identity: "identity a = identity b \<Longrightarrow> event_key a = event_key b"
  by (cases a; cases b) auto

lemma out_event_single:
  "\<exists>out. out_event (Some ty) key (JMap kvs) = Inr [out]"
  by (cases ty)
     (simp_all add: out_event_def Event_new_def IndexedEvent_new_def TimeRangeEvent_new_def Let_def)

lemma collect_singletons:
  assumes "\<forall>p\<in>set ps. \<exists>out. F p = Inr [out] \<and> Q p out"
  shows "\<exists>outs. collect (map F ps) = Inr outs \<and> list_all2 Q ps outs"
  using assms
proof (induction ps)
  case Nil
  then show ?case by simp
next
  case (Cons p ps)
  then obtain out where o: "F p = Inr [out]" "Q p out" by auto
  from Cons obtain outs where r: "collect (map F ps) = Inr outs" "list_all2 Q ps outs" by auto
  from o r have "collect (map F (p # ps)) = Inr (out # outs)" "list_all2 Q (p # ps) (out # outs)"
    by simp_all
  then show ?case by blast
qed

lemma list_all2_left: "list_all2 Q ps outs \<Longrightarrow> p \<in> set ps \<Longrightarrow> \<exists>out\<in>set outs. Q p out"
  by (induction rule: list_all2_induct) auto

lemma list_all2_right: "list_all2 Q ps outs \<Longrightarrow> out \<in> set outs \<Longrightarrow> \<exists>p\<in>set ps. Q p out"
  by (induction rule: list_all2_induct) auto

lemma list_all2_keys:
  "list_all2 Q ps outs \<Longrightarrow> (\<And>p out. Q p out \<Longrightarrow> g out = f p) \<Longrightarrow> map g outs = map f ps"
  by (induction rule: list_all2_induct) auto

text \<open>
  Conversely to the failure on mixed groups, \<open>merge\<close> returns whenever the events that
  share a key are of one kind.
\<close>

lemma merge_succeeds_on_homogeneous:
  assumes "\<forall>e1\<in>set events. \<forall>e2\<in>set events.
             event_key e1 = event_key e2 \<longrightarrow> event_type e1 = event_type e2"
  shows "\<exists>outs. Event_merge events = Inr outs"
proof -
  from group_events_succeeds [OF assms, of "[]" "[]"] obtain eventMap typeMap where
    grp: "group_events events ([], []) = Inr (eventMap, typeMap)" by auto
  have "\<exists>ys. collect (map (\<lambda>(key, es). out_event (map_of typeMap key) key (merge_data es))
                         eventMap) = Inr ys"
    by (rule collect_succeeds) (auto simp: out_event_succeeds merge_data_is_map)
  with grp show ?thesis by (auto simp: Event_merge_def)
qed

text \<open>
  The two ways in which \<open>combine\<close> does not walk the fields as they are. Data with a
  number under \<open>length\<close> is walked as an array: the fields are the positions, and no
  position is a key of the data. A field named like an inherited property makes the
  call fail.
\<close>

lemma combine_walks_numeric_length_as_array:
  "Event_combine [Event 0 (JMap [(''length'', JNum 2), (''a'', JNum 1)])] SpecUndefined JList =
     Inr [Event 0 (JMap [(''0'', JList [JUndefined]), (''1'', JList [JUndefined])])]"
  by (simp add: group_eval upt_rec dec_of_nat.simps digit_def)

lemma combine_fails_on_inherited_name:
  "Event_combine [Event 0 (JMap [(''toString'', JNum 1)])] SpecUndefined JList = Inl TypeError"
  by (simp add: group_eval)

text \<open>
  C4, as the claim has it, fails: with no field specification \<open>combine\<close> takes the
  field names afresh from every event of the group, not from the first one. Two events
  at one time with data \<open>{a: 1}\<close> and \<open>{b: 2}\<close> give an output with both fields,
  each reduced from the one value that was there; the first event has the field \<open>a\<close>
  alone.
\<close>

theorem combine_fields_not_of_first_event:
  "Event_combine [Event 0 (JMap [(''a'', JNum 1)]), Event 0 (JMap [(''b'', JNum 2)])]
                 SpecUndefined JList =
     Inr [Event 0 (JMap [(''a'', JList [JNum 1]), (''b'', JList [JNum 2])])] \<and>
   field_names (Event 0 (JMap [(''a'', JList [JNum 1]), (''b'', JList [JNum 2])])) \<noteq>
     field_names (Event 0 (JMap [(''a'', JNum 1)]))"
  by (simp add: group_eval field_names_def)

text \<open>
  C4, amended: \<open>combine\<close> is called with a field specification that is neither a
  string nor an array, on events whose data are mappings with no number under
  \<open>length\<close> and no field named like an inherited property, none of them with the group
  key \<open>__proto__\<close>, and with the events that share a group key all of one kind (C2 has
  the other case). Then \<open>combine\<close> returns, with one output event for each group and
  no other: every input event finds an output event of its temporal identity, no two
  output events have the same group key, and every output event has the temporal
  identity of an input event and carries exactly the fields reduced for that event's
  group. These are the fields present in any event of the group, each with the
  reducer's result on the values of that field, in input order, from the events of the
  group that carry it.
\<close>

theorem combine_unset_all_columns:
  assumes unset: "fieldNames_of fieldSpec = None"
    and wf: "\<forall>e\<in>set events. plain_data (Event_data e)"
    and keys: "\<forall>e\<in>set events. event_key e \<noteq> ''__proto__''"
    and hom: "\<forall>e1\<in>set events. \<forall>e2\<in>set events.
                event_key e1 = event_key e2 \<longrightarrow> event_type e1 = event_type e2"
  shows "\<exists>outs. Event_combine events fieldSpec reducer = Inr outs \<and>
           distinct (map event_key outs) \<and>
           (\<forall>e\<in>set events. \<exists>out\<in>set outs. identity out = identity e) \<and>
           (\<forall>out\<in>set outs. \<exists>e\<in>set events. identity out = identity e \<and>
              carries reducer out (filter (\<lambda>e'. event_key e' = event_key e) events))"
proof -
  from group_events_succeeds [OF hom, of "[]" "[]"] obtain eventMap typeMap where
    grp: "group_events events ([], []) = Inr (eventMap, typeMap)" by auto
  let ?F = "\<lambda>(key, es). case combine_data None reducer es of
                            Inl err \<Rightarrow> Inl err
                          | Inr d \<Rightarrow> out_event (map_of typeMap key) key d"
  let ?group = "\<lambda>key. filter (\<lambda>e'. event_key e' = key) events"
  let ?Q = "\<lambda>p out. event_key out = fst p \<and>
              (\<forall>e\<in>set events. event_key e = fst p \<longrightarrow> identity out = identity e) \<and>
              carries reducer out (?group (fst p))"
  from group_events_distinct [OF grp] have dist: "distinct (map fst eventMap)" by simp
  from group_events_keys [OF grp] have dom: "fst ` set eventMap = event_key ` set events" by simp
  have each: "\<forall>p\<in>set eventMap. \<exists>out. ?F p = Inr [out] \<and> ?Q p out"
  proof
    fix p assume p: "p \<in> set eventMap"
    obtain key es where kes: "p = (key, es)" by (cases p)
    with p dist have "map_of eventMap key = Some es" by simp
    then have "look eventMap key = es" by (simp add: look_def)
    with group_events_look [OF grp, of key] have es: "es = ?group key" by (simp add: look_def)
    from p kes have "key \<in> fst ` set eventMap" by force
    with dom obtain e0 where e0: "e0 \<in> set events" "event_key e0 = key" by auto
    from wf have "\<forall>e\<in>set (?group key). plain_data (Event_data e)" by simp
    from combine_data_plain [OF this, of reducer] obtain kvs where
      cd: "combine_data None reducer (?group key) = Inr (JMap kvs)" and
      kd: "distinct (map fst kvs)" and
      kf: "fst ` set kvs = (\<Union>e\<in>set (?group key). field_names e)" and
      kv: "\<forall>f\<in>(\<Union>e\<in>set (?group key). field_names e).
             map_of kvs f = Some (reducer (field_values f (?group key)))"
      by blast
    from group_events_types [OF grp] e0 have ty: "map_of typeMap key = Some (event_type e0)"
      by auto
    from out_event_single obtain out where
      out: "out_event (Some (event_type e0)) key (JMap kvs) = Inr [out]" by blast
    have ids: "identity out = identity e \<and> Event_data out = JMap kvs"
      if "e \<in> set events" "event_key e = key" for e
    proof -
      from group_events_types [OF grp] that have "map_of typeMap key = Some (event_type e)"
        by auto
      with ty have "event_type e = event_type e0" by simp
      with out that have "out_event (Some (event_type e)) (event_key e) (JMap kvs) = Inr [out]"
        by simp
      from out_event_of_group [OF _ this] show ?thesis by simp
    qed
    from ids [OF e0] have i0: "identity out = identity e0" and od: "Event_data out = JMap kvs"
      by simp_all
    from i0 have "event_key out = event_key e0" by (rule event_key_of_identity)
    with e0 kes have q1: "event_key out = fst p" by simp
    have q2: "\<forall>e\<in>set events. event_key e = fst p \<longrightarrow> identity out = identity e"
      using ids kes by simp
    have "is_mapping (JMap kvs)" using kd by (simp add: is_mapping_def)
    with kf kv have q3: "carries reducer out (?group (fst p))"
      unfolding carries_def od kes by simp
    from cd es have "combine_data None reducer es = Inr (JMap kvs)" by simp
    with ty out kes have f: "?F p = Inr [out]" by simp
    from f q1 q2 q3 show "\<exists>out. ?F p = Inr [out] \<and> ?Q p out" by blast
  qed
  from collect_singletons [OF each] obtain outs where
    col: "collect (map ?F eventMap) = Inr outs" and all2: "list_all2 ?Q eventMap outs"
    by blast
  have res: "Event_combine events fieldSpec reducer = Inr outs"
  proof (cases "events = []")
    case True
    with grp have "eventMap = []" by simp
    with col True show ?thesis by (simp add: Event_combine_def)
  next
    case False
    with grp col unset show ?thesis by (simp add: Event_combine_def Let_def)
  qed
  have "map event_key outs = map fst eventMap"
    using all2 by (rule list_all2_keys) simp
  with dist have d: "distinct (map event_key outs)" by simp
  have a: "\<forall>e\<in>set events. \<exists>out\<in>set outs. identity out = identity e"
  proof
    fix e assume e: "e \<in> set events"
    with dom have "event_key e \<in> fst ` set eventMap" by auto
    then obtain p where p: "p \<in> set eventMap" "fst p = event_key e" by force
    from list_all2_left [OF all2 p(1)] obtain out where "out \<in> set outs" "?Q p out" by blast
    with e p(2) show "\<exists>out\<in>set outs. identity out = identity e" by auto
  qed
  have b: "\<forall>out\<in>set outs. \<exists>e\<in>set events. identity out = identity e \<and>
              carries reducer out (?group (event_key e))"
  proof
    fix out assume "out \<in> set outs"
    from list_all2_right [OF all2 this] obtain p where p: "p \<in> set eventMap" "?Q p out" by blast
    from p(1) dom obtain e where e: "e \<in> set events" "event_key e = fst p" by force
    with p(2) show "\<exists>e\<in>set events. identity out = identity e \<and>
                      carries reducer out (?group (event_key e))" by auto
  qed
  from res d a b show ?thesis by blast
qed

text \<open>An instance: the two events of the counterexample, with the reducer that returns its list.\<close>

theorem combine_unset_all_columns_witness:
  "Event_combine [Event 0 (JMap [(''a'', JNum 1)]), Event 0 (JMap [(''b'', JNum 2)])]
                 SpecUndefined JList =
     Inr [Event 0 (JMap [(''a'', JList [JNum 1]), (''b'', JList [JNum 2])])] \<and>
   fieldNames_of SpecUndefined = None \<and>
   plain_data (JMap [(''a'', JNum 1)]) \<and> plain_data (JMap [(''b'', JNum 2)]) \<and>
   event_key (Event 0 (JMap [(''a'', JNum 1)])) \<noteq> ''__proto__'' \<and>
   event_key (Event 0 (JMap [(''b'', JNum 2)])) \<noteq> ''__proto__'' \<and>
   event_type (Event 0 (JMap [(''a'', JNum 1)])) = event_type (Event 0 (JMap [(''b'', JNum 2)])) \<and>
   (\<exists>outs. Event_combine [Event 0 (JMap [(''a'', JNum 1)]), Event 0 (JMap [(''b'', JNum 2)])]
                          SpecUndefined JList = Inr outs \<and>
      distinct (map event_key outs) \<and>
      (\<forall>e\<in>set [Event 0 (JMap [(''a'', JNum 1)]), Event 0 (JMap [(''b'', JNum 2)])].
         \<exists>out\<in>set outs. identity out = identity e) \<and>
      (\<forall>out\<in>set outs.
         \<exists>e\<in>set [Event 0 (JMap [(''a'', JNum 1)]), Event 0 (JMap [(''b'', JNum 2)])].
           identity out = identity e \<and>
           carries JList out
             (filter (\<lambda>e'. event_key e' = event_key e)
                [Event 0 (JMap [(''a'', JNum 1)]), Event 0 (JMap [(''b'', JNum 2)])])))"
proof -
  let ?e1 = "Event 0 (JMap [(''a'', JNum 1)])"
  let ?e2 = "Event 0 (JMap [(''b'', JNum 2)])"
  let ?out = "Event 0 (JMap [(''a'', JList [JNum 1]), (''b'', JList [JNum 2])])"
  have r: "Event_combine [?e1, ?e2] SpecUndefined JList = Inr [?out]" by (simp add: group_eval)
  have u: "fieldNames_of SpecUndefined = None" by simp
  have w1: "plain_data (JMap [(''a'', JNum 1)])"
    by (simp add: plain_data_def is_mapping_def imm_get_def inherited_names_def)
  have w2: "plain_data (JMap [(''b'', JNum 2)])"
    by (simp add: plain_data_def is_mapping_def imm_get_def inherited_names_def)
  have k1: "event_key ?e1 \<noteq> ''__proto__''"
    by (simp add: string_of_int_def dec_of_nat.simps digit_def)
  have k2: "event_key ?e2 \<noteq> ''__proto__''"
    by (simp add: string_of_int_def dec_of_nat.simps digit_def)
  have t: "event_type ?e1 = event_type ?e2" by simp
  from w1 w2 have wf: "\<forall>e\<in>set [?e1, ?e2]. plain_data (Event_data e)" by simp
  from k1 k2 have keys: "\<forall>e\<in>set [?e1, ?e2]. event_key e \<noteq> ''__proto__''" by simp
  have hom: "\<forall>a\<in>set [?e1, ?e2]. \<forall>b\<in>set [?e1, ?e2].
               event_key a = event_key b \<longrightarrow> event_type a = event_type b" by simp
  note c = combine_unset_all_columns [OF u wf keys hom, of JList]
  show ?thesis using r u w1 w2 k1 k2 t c by (intro conjI)
qed

section \<open>Mapping\<close>

lemma push_pairs_look:
  "distinct (map fst pairs) \<Longrightarrow>
     look (push_pairs pairs m) k =
       look m k @ (case map_of pairs k of None \<Rightarrow> [] | Some v \<Rightarrow> [v])"
proof (induction pairs arbitrary: m)
  case Nil
  then show ?case by simp
next
  case (Cons p pairs)
  obtain k' v where p: "p = (k', v)" by (cases p)
  with Cons.prems have "map_of pairs k' = None" by (auto simp: map_of_eq_None_iff)
  with Cons p show ?case by (auto simp: look_push_at split: option.splits)
qed

lemma push_pairs_keys: "fst ` set (push_pairs pairs m) = fst ` set m \<union> fst ` set pairs"
  by (induction pairs m rule: push_pairs.induct) (auto simp: keys_push_at)

lemma push_pairs_distinct: "distinct (map fst m) \<Longrightarrow> distinct (map fst (push_pairs pairs m))"
  by (induction pairs m rule: push_pairs.induct) (auto simp: distinct_push_at)

lemma all_columns_look:
  "\<forall>e\<in>set es. is_mapping (Event_data e) \<Longrightarrow>
     look (foldl (\<lambda>result event. push_pairs (entries (Event_data event)) result) m es) k =
       look m k @ field_values k es"
proof (induction es arbitrary: m)
  case Nil
  then show ?case by (simp add: field_values_def)
next
  case (Cons e es)
  then have d: "distinct (map fst (entries (Event_data e)))" by (simp add: is_mapping_def)
  have "(case map_of (entries (Event_data e)) k of None \<Rightarrow> [] | Some v \<Rightarrow> [v]) =
          (if k \<in> field_names e then [imm_get (Event_data e) k] else [])"
    by (auto simp: field_names_def imm_get_def map_of_eq_None_iff split: option.splits
          dest: map_of_SomeD intro: rev_image_eqI)
  with Cons show ?case
    by (simp add: push_pairs_look [OF d] field_values_def)
qed

lemma all_columns_keys:
  "fst ` set (foldl (\<lambda>result event. push_pairs (entries (Event_data event)) result) m es) =
     fst ` set m \<union> (\<Union>e\<in>set es. field_names e)"
  by (induction es arbitrary: m) (auto simp: push_pairs_keys field_names_def)

lemma all_columns_distinct:
  "distinct (map fst m) \<Longrightarrow>
     distinct (map fst (foldl (\<lambda>result event. push_pairs (entries (Event_data event)) result) m es))"
  by (induction es arbitrary: m) (auto simp: push_pairs_distinct)

lemma json_pairs_plain:
  assumes "plain_data d"
  shows "json_pairs d = entries d"
proof -
  from assms obtain kvs where d: "d = JMap kvs"
    by (cases d) (auto simp: plain_data_def is_mapping_def)
  from assms d have "\<And>x. map_of kvs ''length'' \<noteq> Some (JNum x)"
    by (auto simp: plain_data_def imm_get_def)
  then have "each_pairs kvs = kvs"
    by (auto simp: each_pairs_def split: option.splits jsval.splits)
  with d show ?thesis by simp
qed

text \<open>
  The last branch of \<open>map\<close>, reached with a field specification such as null, on
  events whose data are mappings with no number under \<open>length\<close>: the result has one
  key for every field present in any event, and under it the values of that field from
  the events that carry it, in input order.
\<close>

lemma map_null_all_columns:
  assumes plain: "\<forall>e\<in>set es. plain_data (Event_data e)"
  shows "\<exists>result. Event_map (Array es) SpecNull = Inr result \<and>
           distinct (map fst result) \<and>
           fst ` set result = (\<Union>e\<in>set es. field_names e) \<and>
           (\<forall>k\<in>(\<Union>e\<in>set es. field_names e). map_of result k = Some (field_values k es))"
proof -
  from plain have maps: "\<forall>e\<in>set es. is_mapping (Event_data e)" by (simp add: plain_data_def)
  let ?r = "foldl (\<lambda>result event. push_pairs (entries (Event_data event)) result) [] es"
  have "foldl (\<lambda>result event. push_pairs (json_pairs (Event_data event)) result) [] es = ?r"
    using plain by (intro foldl_cong) (simp_all add: json_pairs_plain)
  then have r: "Event_map (Array es) SpecNull = Inr ?r" by (simp add: Event_map_def)
  have keys: "fst ` set ?r = (\<Union>e\<in>set es. field_names e)" by (simp add: all_columns_keys)
  have "map_of ?r k = Some (field_values k es)" if "k \<in> (\<Union>e\<in>set es. field_names e)" for k
  proof -
    from that keys have "k \<in> fst ` set ?r" by simp
    then have "map_of ?r k = Some (look ?r k)" by (rule map_of_look)
    moreover have "look ?r k = field_values k es"
      using all_columns_look [OF maps, of "[]" k] by (simp add: look_def)
    ultimately show ?thesis by simp
  qed
  with r keys all_columns_distinct [of "[]" es] show ?thesis by auto
qed

text \<open>In the last branch too, data with a number under \<open>length\<close> is walked as an array.\<close>

lemma map_walks_numeric_length_as_array:
  "Event_map (Array [Event 0 (JMap [(''length'', JNum 2), (''a'', JNum 1)])]) SpecNull =
     Inr [(''0'', [JUndefined]), (''1'', [JUndefined])]"
  by (simp add: Event_map_def push_at_def each_pairs_def upt_rec dec_of_nat.simps digit_def)

text \<open>
  C5 does not hold of \<open>map\<close>: when the field specification is left out, the default
  of the parameter makes it \<open>"value"\<close>, and the first branch runs in place of the last.
  For a single event with data \<open>{a: 1}\<close> the result is \<open>{value: [undefined]}\<close>: the
  key \<open>a\<close> is absent, and the key \<open>value\<close>, which no event carries, is present.
\<close>

theorem map_omitted_fieldSpec_is_value:
  "Event_map (Array [Event 0 (JMap [(''a'', JNum 1)])]) SpecUndefined =
     Inr [(''value'', [JUndefined])] \<and>
   Event_map (Array [Event 0 (JMap [(''a'', JNum 1)])]) SpecNull =
     Inr [(''a'', [JNum 1])]"
  by (simp add: Event_map_def push_at_def Event_get_def each_pairs_def)

section \<open>Filling\<close>

lemmas filler_eval = run_filler_def Filler_new_def addEvent_def padAndZero_path_def
  limit_hit_def keyCount_at_def update_conv' Let_def

text \<open>
  On a path that is present, \<open>setIn\<close> stores the value where \<open>getIn\<close> finds it and
  keeps the path present: the case in which Immutable's \<open>setIn\<close> would raise does not
  occur under the test of \<open>_padAndZero\<close>.
\<close>

lemma getIn_setIn: "hasIn d p \<Longrightarrow> getIn (setIn d p x) p = x \<and> hasIn (setIn d p x) p"
proof (induction d p rule: hasIn.induct)
  case (1 v)
  then show ?case by simp
next
  case (2 kvs k ks)
  then show ?case by (auto simp: update_conv' split: option.splits)
qed simp_all

text \<open>
  C7: a filler built with the method zero, the limit 1 and the path \<open>"value"\<close>, with an
  observer attached, is fed four events whose \<open>value\<close> is missing, missing, 5 and
  missing. Each call emits one event, and the values of \<open>value\<close> in the emitted events
  are 0, missing, 5 and 0: the first event is filled and the counter of the path goes
  to 1; the second is emitted as it came, the counter having reached the limit, and the
  counter stays at 1; the third is emitted as it came and the counter goes back to 0;
  the fourth is filled and the counter is at 1 again. The other fields of the events
  are untouched.
\<close>

theorem zero_fill_limit_one:
  assumes "map_of d1 ''value'' = Some m1" and "isMissing m1"
    and "map_of d2 ''value'' = Some m2" and "isMissing m2"
    and "map_of d3 ''value'' = Some (JNum 5)"
    and "map_of d4 ''value'' = Some m4" and "isMissing m4"
  shows "\<exists>trace.
     run_filler \<lparr>opt_fieldSpec = FillString ''value'', opt_method = Some ''zero'',
                  opt_limit = Some 1\<rparr>
        [Event t1 (JMap d1), Event t2 (JMap d2), Event t3 (JMap d3), Event t4 (JMap d4)] =
       Inr trace \<and>
     map fst trace =
       [[Event t1 (JMap (AList.update ''value'' (JNum 0) d1))],
        [Event t2 (JMap d2)],
        [Event t3 (JMap d3)],
        [Event t4 (JMap (AList.update ''value'' (JNum 0) d4))]] \<and>
     map (\<lambda>(emitted, s). map (\<lambda>e. Event_get e (PathString ''value'')) emitted) trace =
       [[JNum 0], [m2], [JNum 5], [JNum 0]] \<and>
     map (\<lambda>(emitted, s). keyCount_at s ''value'') trace = [1, 1, 0, 1]"
  using assms by (simp add: filler_eval Event_get_def)

text \<open>An instance: the missing values are null, NaN and undefined.\<close>

theorem zero_fill_limit_one_witness:
  "isMissing JNull \<and> isMissing JNaN \<and> isMissing JUndefined \<and>
   (\<exists>trace.
     run_filler \<lparr>opt_fieldSpec = FillString ''value'', opt_method = Some ''zero'',
                  opt_limit = Some 1\<rparr>
        [Event 1 (JMap [(''value'', JNull)]), Event 2 (JMap [(''value'', JNaN)]),
         Event 3 (JMap [(''value'', JNum 5)]), Event 4 (JMap [(''value'', JUndefined)])] =
       Inr trace \<and>
     map fst trace =
       [[Event 1 (JMap (AList.update ''value'' (JNum 0) [(''value'', JNull)]))],
        [Event 2 (JMap [(''value'', JNaN)])],
        [Event 3 (JMap [(''value'', JNum 5)])],
        [Event 4 (JMap (AList.update ''value'' (JNum 0) [(''value'', JUndefined)]))]] \<and>
     map (\<lambda>(emitted, s). map (\<lambda>e. Event_get e (PathString ''value'')) emitted) trace =
       [[JNum 0], [JNaN], [JNum 5], [JNum 0]] \<and>
     map (\<lambda>(emitted, s). keyCount_at s ''value'') trace = [1, 1, 0, 1])"
proof -
  have a1: "map_of [(''value'', JNull)] ''value'' = Some JNull" by simp
  have a2: "map_of [(''value'', JNaN)] ''value'' = Some JNaN" by simp
  have a3: "map_of [(''value'', JNum 5)] ''value'' = Some (JNum 5)" by simp
  have a4: "map_of [(''value'', JUndefined)] ''value'' = Some JUndefined" by simp
  have b1: "isMissing JNull" and b2: "isMissing JNaN" and b4: "isMissing JUndefined"
    by simp_all
  note c = zero_fill_limit_one [OF a1 b1 a2 b2 a3 a4 b4, of 1 2 3 4]
  show ?thesis using b1 b2 b4 c by (intro conjI)
qed

text \<open>
  C8: a filler built with the method pad and no limit, with an observer attached, is fed
  four events whose \<open>value\<close> is missing, 3, missing and missing. Each call emits one
  event, and the values of \<open>value\<close> in the emitted events are missing, 3, 3 and 3: the
  first event is emitted as it came, there being no previous event; the second as it
  came; the third and the fourth with \<open>value\<close> set to 3. After every call the
  previous event of the filler is the event just emitted, so the fourth event takes its
  3 from the filled third event and not from the third event as it came.
\<close>

theorem pad_fill_no_limit:
  assumes "map_of d1 ''value'' = Some m1" and "isMissing m1"
    and "map_of d2 ''value'' = Some (JNum 3)"
    and "map_of d3 ''value'' = Some m3" and "isMissing m3"
    and "map_of d4 ''value'' = Some m4" and "isMissing m4"
  shows "\<exists>trace.
     run_filler \<lparr>opt_fieldSpec = FillString ''value'', opt_method = Some ''pad'',
                  opt_limit = None\<rparr>
        [Event t1 (JMap d1), Event t2 (JMap d2), Event t3 (JMap d3), Event t4 (JMap d4)] =
       Inr trace \<and>
     map fst trace =
       [[Event t1 (JMap d1)],
        [Event t2 (JMap d2)],
        [Event t3 (JMap (AList.update ''value'' (JNum 3) d3))],
        [Event t4 (JMap (AList.update ''value'' (JNum 3) d4))]] \<and>
     map (\<lambda>(emitted, s). map (\<lambda>e. Event_get e (PathString ''value'')) emitted) trace =
       [[m1], [JNum 3], [JNum 3], [JNum 3]] \<and>
     map (\<lambda>(emitted, s). u_previousEvent s) trace =
       [Some (Event t1 (JMap d1)),
        Some (Event t2 (JMap d2)),
        Some (Event t3 (JMap (AList.update ''value'' (JNum 3) d3))),
        Some (Event t4 (JMap (AList.update ''value'' (JNum 3) d4)))]"
  using assms by (simp add: filler_eval Event_get_def)

text \<open>An instance: the missing values are null, NaN and undefined.\<close>

theorem pad_fill_no_limit_witness:
  "isMissing JNull \<and> isMissing JNaN \<and> isMissing JUndefined \<and>
   (\<exists>trace.
     run_filler \<lparr>opt_fieldSpec = FillString ''value'', opt_method = Some ''pad'',
                  opt_limit = None\<rparr>
        [Event 1 (JMap [(''value'', JNull)]), Event 2 (JMap [(''value'', JNum 3)]),
         Event 3 (JMap [(''value'', JNaN)]), Event 4 (JMap [(''value'', JUndefined)])] =
       Inr trace \<and>
     map fst trace =
       [[Event 1 (JMap [(''value'', JNull)])],
        [Event 2 (JMap [(''value'', JNum 3)])],
        [Event 3 (JMap (AList.update ''value'' (JNum 3) [(''value'', JNaN)]))],
        [Event 4 (JMap (AList.update ''value'' (JNum 3) [(''value'', JUndefined)]))]] \<and>
     map (\<lambda>(emitted, s). map (\<lambda>e. Event_get e (PathString ''value'')) emitted) trace =
       [[JNull], [JNum 3], [JNum 3], [JNum 3]] \<and>
     map (\<lambda>(emitted, s). u_previousEvent s) trace =
       [Some (Event 1 (JMap [(''value'', JNull)])),
        Some (Event 2 (JMap [(''value'', JNum 3)])),
        Some (Event 3 (JMap (AList.update ''value'' (JNum 3) [(''value'', JNaN)]))),
        Some (Event 4 (JMap (AList.update ''value'' (JNum 3) [(''value'', JUndefined)])))])"
proof -
  have a1: "map_of [(''value'', JNull)] ''value'' = Some JNull" by simp
  have a2: "map_of [(''value'', JNum 3)] ''value'' = Some (JNum 3)" by simp
  have a3: "map_of [(''value'', JNaN)] ''value'' = Some JNaN" by simp
  have a4: "map_of [(''value'', JUndefined)] ''value'' = Some JUndefined" by simp
  have b1: "isMissing JNull" and b3: "isMissing JNaN" and b4: "isMissing JUndefined"
    by simp_all
  note c = pad_fill_no_limit [OF a1 b1 a2 a3 b3 a4 b4, of 1 2 3 4]
  show ?thesis using b1 b3 b4 c by (intro conjI)
qed

text \<open>
  The linear policy of the spec, started on the members that the constructor assigns
  for the method linear and the path \<open>"value"\<close>: of four events with values 5, missing,
  missing and 11 the first is emitted at once, the next two are queued, and the fourth
  releases them with 7 and 9 before it is emitted itself.
\<close>

lemma linear_policy_from_assigned_members:
  "feed \<lparr>u_fieldSpec = Some [PathString ''value''], u_method = ''linear'', u_limit = None,
          u_previousEvent = None, u_keyCount = [], u_lastGoodLinear = JNull,
          u_linearFillCache = []\<rparr>
        [Event t1 (JMap [(''value'', JNum 5)]), Event t2 (JMap [(''value'', JNull)]),
         Event t3 (JMap [(''value'', JNull)]), Event t4 (JMap [(''value'', JNum 11)])] =
     Inr [([Event t1 (JMap [(''value'', JNum 5)])],
           \<lparr>u_fieldSpec = Some [PathString ''value''], u_method = ''linear'', u_limit = None,
             u_previousEvent = None, u_keyCount = [], u_lastGoodLinear = JNum 5,
             u_linearFillCache = []\<rparr>),
          ([],
           \<lparr>u_fieldSpec = Some [PathString ''value''], u_method = ''linear'', u_limit = None,
             u_previousEvent = None, u_keyCount = [], u_lastGoodLinear = JNum 5,
             u_linearFillCache = [Event t2 (JMap [(''value'', JNull)])]\<rparr>),
          ([],
           \<lparr>u_fieldSpec = Some [PathString ''value''], u_method = ''linear'', u_limit = None,
             u_previousEvent = None, u_keyCount = [], u_lastGoodLinear = JNum 5,
             u_linearFillCache = [Event t2 (JMap [(''value'', JNull)]),
                                  Event t3 (JMap [(''value'', JNull)])]\<rparr>),
          ([Event t2 (JMap [(''value'', JNum 7)]), Event t3 (JMap [(''value'', JNum 9)]),
            Event t4 (JMap [(''value'', JNum 11)])],
           \<lparr>u_fieldSpec = Some [PathString ''value''], u_method = ''linear'', u_limit = None,
             u_previousEvent = None, u_keyCount = [], u_lastGoodLinear = JNum 11,
             u_linearFillCache = []\<rparr>)]"
  by (simp add: addEvent_def linearFill_def interpolate_def upt_rec Let_def)

text \<open>
  C9 does not hold of the filler: the run of the claim cannot begin, because the
  constructor raises a TypeError for the method linear (the misnamed property of C6),
  so none of the four events is taken and nothing is emitted.
\<close>

theorem linear_run_fails_at_construction:
  "run_filler \<lparr>opt_fieldSpec = FillString ''value'', opt_method = Some ''linear'',
                opt_limit = None\<rparr>
     [Event t1 (JMap [(''value'', JNum 5)]), Event t2 (JMap [(''value'', JNull)]),
      Event t3 (JMap [(''value'', JNull)]), Event t4 (JMap [(''value'', JNum 11)])] =
   Inl TypeError"
  by (simp add: run_filler_def Filler_new_def this_fieldSpec_def)

end
